theory Spec2Isabelle
  imports Main "HOL-Library.Sublist" "HOL-Library.Char_ord" "HOL-Library.List_Lexorder"
    "HOL-Library.Multiset"
begin

section \<open>DICOM de-identification utility: a shallow embedding of dicom\_anonymizer.py\<close>

text \<open>
  The theory embeds the functions \<^verbatim>\<open>extract_id_sex_age\<close>, \<^verbatim>\<open>anonymise\<close>,
  \<^verbatim>\<open>process_folder\<close> and the work-list construction of \<^verbatim>\<open>main\<close>.
  Python strings are \<^typ>\<open>string\<close> (one \<^typ>\<open>char\<close> per code point below 256),
  exceptions are values of the type \<open>error\<close> returned in the left summand, and the
  effects of the code (file reads and writes, clock reads) are explicit arguments and
  results. Logging has no influence on any returned value and is left out.
\<close>

subsection \<open>Strings: the Python string operations the code uses\<close>

text \<open>\<^verbatim>\<open>str(n)\<close> for a non-negative integer: its decimal digits.\<close>

fun str_nat :: "nat \<Rightarrow> string" where
  "str_nat n =
     (if n < 10 then [''0123456789'' ! n]
      else str_nat (n div 10) @ [''0123456789'' ! (n mod 10)])"

declare str_nat.simps [simp del]

text \<open>
  \<^verbatim>\<open>"%0wd" % n\<close> for a non-negative integer: the decimal digits, padded on the left with
  zeros up to a minimum width \<open>w\<close>. The same padding renders the fields of
  \<^verbatim>\<open>strftime\<close>.
\<close>

definition fmt_0d :: "nat \<Rightarrow> nat \<Rightarrow> string" where
  "fmt_0d w n = replicate (w - length (str_nat n)) (CHR ''0'') @ str_nat n"

text \<open>
  \<^verbatim>\<open>s.zfill(width)\<close>: zeros are inserted on the left, after a leading sign character.
\<close>

definition zfill :: "nat \<Rightarrow> string \<Rightarrow> string" where
  "zfill width s =
     (if width \<le> length s then s
      else (case s of
              [] \<Rightarrow> replicate width (CHR ''0'')
            | c # cs \<Rightarrow>
                if c = CHR ''+'' \<or> c = CHR ''-''
                then c # replicate (width - length s) (CHR ''0'') @ cs
                else replicate (width - length s) (CHR ''0'') @ s))"

text \<open>
  \<^verbatim>\<open>re.sub(pat, rep, s)\<close> for a pattern without regular-expression metacharacters and
  a replacement without backslash (the two category names, the digits of the session
  token): every non-overlapping occurrence of \<open>pat\<close>, found from the left, is replaced.
  An empty pattern matches at every position, as in Python.
\<close>

fun re_sub :: "string \<Rightarrow> string \<Rightarrow> string \<Rightarrow> string" where
  "re_sub pat rep [] = (if pat = [] then rep else [])"
| "re_sub pat rep (c # cs) =
     (if pat = [] then rep @ c # re_sub pat rep cs
      else if prefix pat (c # cs) then rep @ re_sub pat rep (drop (length pat) (c # cs))
      else c # re_sub pat rep cs)"

text \<open>
  \<^verbatim>\<open>re.sub('DICOM(.*)', '', s)\<close>: from each occurrence of \<^verbatim>\<open>DICOM\<close> the rest of the
  line is removed (the dot does not match a line feed).
\<close>

function re_sub_DICOM :: "string \<Rightarrow> string" where
  "re_sub_DICOM [] = []"
| "re_sub_DICOM (c # cs) =
     (if prefix ''DICOM'' (c # cs)
      then re_sub_DICOM (dropWhile (\<lambda>x. x \<noteq> CHR 0x0A) (drop 5 (c # cs)))
      else c # re_sub_DICOM cs)"
  by pat_completeness auto
termination
proof (relation "measure length")
  show "wf (measure length)" by simp
next
  fix c :: char and cs :: string
  assume "prefix ''DICOM'' (c # cs)"
  have "length (dropWhile (\<lambda>x. x \<noteq> CHR 0x0A) (drop 5 (c # cs))) \<le> length (drop 5 (c # cs))"
    by (rule length_dropWhile_le)
  also have "\<dots> < length (c # cs)" by simp
  finally show "(dropWhile (\<lambda>x. x \<noteq> CHR 0x0A) (drop 5 (c # cs)), c # cs) \<in> measure length"
    by simp
next
  fix c :: char and cs :: string
  show "(cs, c # cs) \<in> measure length" by simp
qed

text \<open>\<^verbatim>\<open>sub in s\<close> on strings.\<close>

fun is_substring :: "string \<Rightarrow> string \<Rightarrow> bool" where
  "is_substring sub [] = (sub = [])"
| "is_substring sub (c # cs) = (prefix sub (c # cs) \<or> is_substring sub cs)"

text \<open>\<^verbatim>\<open>os.path.join(a, b)\<close> of \<^verbatim>\<open>posixpath\<close>.\<close>

definition os_path_join :: "string \<Rightarrow> string \<Rightarrow> string" where
  "os_path_join a b =
     (if prefix ''/'' b then b
      else if a = [] \<or> suffix ''/'' a then a @ b
      else a @ ''/'' @ b)"

text \<open>
  \<^verbatim>\<open>str.isspace\<close> on one character below 256, \<^verbatim>\<open>s.split()\<close> (maximal runs of
  non-whitespace characters) and \<^verbatim>\<open>s.strip()\<close>.
\<close>

definition is_space :: "char \<Rightarrow> bool" where
  "is_space c = (c \<in> set [CHR 0x09, CHR 0x0A, CHR 0x0B, CHR 0x0C, CHR 0x0D,
                           CHR 0x1C, CHR 0x1D, CHR 0x1E, CHR 0x1F, CHR 0x20, CHR 0x85, CHR 0xA0])"

fun split_from :: "string \<Rightarrow> string \<Rightarrow> string list" where
  "split_from cur [] = (if cur = [] then [] else [cur])"
| "split_from cur (c # cs) =
     (if is_space c then (if cur = [] then split_from [] cs else cur # split_from [] cs)
      else split_from (cur @ [c]) cs)"

definition str_split :: "string \<Rightarrow> string list" where
  "str_split s = split_from [] s"

definition strip :: "string \<Rightarrow> string" where
  "strip s = rev (dropWhile is_space (rev (dropWhile is_space s)))"

subsection \<open>Errors\<close>

text \<open>
  The exceptions that the functions below can raise, each with what identifies it: the
  attribute, key, variable, path or pattern concerned. The text \<^verbatim>\<open>'%s' % e\<close> that
  \<^verbatim>\<open>process_folder\<close> appends to the file path is worded by the Python runtime and by
  the DICOM library, not by the program; it is read from the environment (the field
  \<open>exception_text\<close> of the world below).
\<close>

datatype error =
    AttributeError string
  | KeyError string
  | IndexError
  | UnboundLocalError string
  | FileNotFoundError string
  | InvalidDicomError string
  | OSError string
  | ReError string

subsection \<open>The Identity Extractor\<close>

text \<open>
  \<^verbatim>\<open>re.search(r'\d+ F \d+|\d+ M \d+', path)\<close>. A match that starts at the head of \<open>s\<close>
  takes the whole run of digits there (taking fewer would leave a digit where the
  space must stand), then a space, \<^verbatim>\<open>F\<close> or \<^verbatim>\<open>M\<close> (at most one alternative fits),
  a space, and the whole non-empty run of digits that follows (the quantifier is
  greedy). \<open>match_here\<close> returns the matched text, \<^verbatim>\<open>group(0)\<close>. The search returns
  the match with the leftmost start.
\<close>

definition is_digit :: "char \<Rightarrow> bool" where
  "is_digit c = (c \<in> set ''0123456789'')"

definition match_here :: "string \<Rightarrow> string option" where
  "match_here s =
     (let d1 = takeWhile is_digit s in
      if d1 = [] then None
      else (case dropWhile is_digit s of
              sp1 # x # sp2 # r \<Rightarrow>
                if sp1 = CHR '' '' \<and> (x = CHR ''F'' \<or> x = CHR ''M'') \<and> sp2 = CHR '' ''
                   \<and> takeWhile is_digit r \<noteq> []
                then Some (d1 @ [sp1, x, sp2] @ takeWhile is_digit r)
                else None
            | _ \<Rightarrow> None))"

fun re_search :: "string \<Rightarrow> string option" where
  "re_search [] = None"
| "re_search (c # cs) =
     (case match_here (c # cs) of Some g \<Rightarrow> Some g | None \<Rightarrow> re_search cs)"

text \<open>
  \<^verbatim>\<open>extract_id_sex_age\<close>: without a match \<^verbatim>\<open>s.group(0)\<close> is called on \<^verbatim>\<open>None\<close>;
  indexing a split with fewer than three tokens would raise \<^verbatim>\<open>IndexError\<close>.
\<close>

definition extract_id_sex_age :: "string \<Rightarrow> error + (string \<times> string \<times> string)" where
  "extract_id_sex_age path =
     (case re_search path of
        None \<Rightarrow> Inl (AttributeError ''group'')
      | Some g \<Rightarrow>
          (case str_split g of
             s0 # s1 # s2 # _ \<Rightarrow> Inr (strip s0, strip s1, strip s2)
           | _ \<Rightarrow> Inl IndexError))"

subsection \<open>Metadata records\<close>

text \<open>
  The DICOM library is outside the repository; the model keeps what the code relies on.
  A data set maps tags to values, kept here as an association list. A standard element
  is addressed by its keyword, as the code does; a private element (odd group number)
  has no keyword and is identified by group and element number. A value is a text or a
  sequence of nested data sets. A file read by \<^verbatim>\<open>dcmread\<close> has the data set proper
  and the file meta information.
\<close>

datatype tag = Keyword string | PrivateTag nat nat

datatype dvalue = Str string | Seq "(tag \<times> dvalue) list list"

type_synonym dataset = "(tag \<times> dvalue) list"

record dicom =
  elements :: dataset
  file_meta :: dataset

fun is_private :: "tag \<Rightarrow> bool" where
  "is_private (Keyword k) = False"
| "is_private (PrivateTag g e) = True"

text \<open>
  \<^verbatim>\<open>remove_private_tags\<close> walks the data set, deletes every private element and
  descends into the items of the sequences that remain.
\<close>

fun remove_private_value :: "dvalue \<Rightarrow> dvalue" where
  "remove_private_value (Str s) = Str s"
| "remove_private_value (Seq items) =
     Seq (map (\<lambda>ds. map (\<lambda>(t, v). (t, remove_private_value v))
                      (filter (\<lambda>(t, v). \<not> is_private t) ds)) items)"

definition remove_private_tags :: "dataset \<Rightarrow> dataset" where
  "remove_private_tags ds =
     map (\<lambda>(t, v). (t, remove_private_value v)) (filter (\<lambda>(t, v). \<not> is_private t) ds)"

text \<open>
  The operations of a data set that the code uses, by keyword:
  \<^item> \<open>contains\<close> is \<^verbatim>\<open>k in d\<close>;
  \<^item> \<open>getitem\<close> reads \<^verbatim>\<open>d[k].value\<close>, \<^const>\<open>None\<close> for an absent element;
  \<^item> \<open>set_value\<close> is \<^verbatim>\<open>d[k].value = v\<close> where the element is present;
  \<^item> \<open>pop\<close> is \<^verbatim>\<open>d.pop(k, None)\<close>, and \<^verbatim>\<open>del d[k]\<close> where the element is present;
  \<^item> \<open>assign_value\<close> is the statement \<^verbatim>\<open>d[k].value = v\<close>, in which \<^verbatim>\<open>d[k]\<close>
    raises \<^verbatim>\<open>KeyError\<close> for an absent element.

  A data set read from a file has at most one element per tag; the operations treat
  every entry of the list with the given tag alike.
\<close>

definition contains :: "string \<Rightarrow> dataset \<Rightarrow> bool" where
  "contains k d = (Keyword k \<in> set (map fst d))"

definition getitem :: "dataset \<Rightarrow> string \<Rightarrow> dvalue option" where
  "getitem d k = map_of d (Keyword k)"

definition set_value :: "string \<Rightarrow> dvalue \<Rightarrow> dataset \<Rightarrow> dataset" where
  "set_value k v d = map (\<lambda>(t, x). if t = Keyword k then (t, v) else (t, x)) d"

definition pop :: "string \<Rightarrow> dataset \<Rightarrow> dataset" where
  "pop k d = filter (\<lambda>(t, x). t \<noteq> Keyword k) d"

definition assign_value :: "string \<Rightarrow> string \<Rightarrow> dataset \<Rightarrow> error + dataset" where
  "assign_value k v d = (if contains k d then Inr (set_value k (Str v) d) else Inl (KeyError k))"

subsection \<open>Field redaction rules and the Record Anonymizer\<close>

definition DATE_FIELDS :: "string list" where
  "DATE_FIELDS = [''DateOfLastCalibration'', ''PatientBirthDate'']"

definition TIME_FIELDS :: "string list" where
  "TIME_FIELDS = [''TimeOfLastCalibration'']"

definition NAME_FIELDS :: "string list" where
  "NAME_FIELDS = [''InstitutionName'', ''InstitutionAddress'', ''ReferringPhysicianName'']"

definition COMMENT_FIELDS :: "string list" where
  "COMMENT_FIELDS = [''ImageComments'']"

definition ID_FIELDS :: "string list" where
  "ID_FIELDS = [''IrradiationEventUID'']"

definition META_FIELDS :: "string list" where
  "META_FIELDS = [''PrivateInformationCreatorUID'', ''PrivateInformation'']"

definition SEQUENCE_FIELDS :: "string list" where
  "SEQUENCE_FIELDS = [''RequestAttributesSequence'']"

text \<open>
  \<^verbatim>\<open>anonymise(d, sex, age, patient_id)\<close>. Each \<^verbatim>\<open>for\<close> loop over a field table is
  a \<^const>\<open>fold\<close>; \<^verbatim>\<open>d[k].clear()\<close> sets the empty value of a text element.
  \<open>redact\<close> is the part of the body that works on the data set proper (from
  \<^verbatim>\<open>d.remove_private_tags()\<close> to the loop over \<^verbatim>\<open>SEQUENCE_FIELDS\<close>),
  \<open>redact_meta\<close> the loop over \<^verbatim>\<open>META_FIELDS\<close> on \<^verbatim>\<open>d.file_meta\<close>.
\<close>

definition redact :: "dataset \<Rightarrow> dataset" where
  "redact e =
     (let e1 = remove_private_tags e;
          e2 = fold (\<lambda>k e. if contains k e then set_value k (Str ''20250419'') e else e)
                 DATE_FIELDS e1;
          e3 = fold (\<lambda>k e. if contains k e then set_value k (Str ''094338'') e else e)
                 TIME_FIELDS e2;
          e4 = fold (\<lambda>k e. if contains k e then set_value k (Str []) e else e)
                 (NAME_FIELDS @ COMMENT_FIELDS) e3;
          e5 = fold (\<lambda>k e. if contains k e then pop k e else e) ID_FIELDS e4;
          e6 = fold pop SEQUENCE_FIELDS e5
      in e6)"

definition redact_meta :: "dataset \<Rightarrow> dataset" where
  "redact_meta m = fold pop META_FIELDS m"

text \<open>
  The \<^verbatim>\<open>except\<close> clause logs and re-raises, so an error of the body is the error of
  the call. The record is mutated in place; the model returns the new record.
\<close>

definition anonymise :: "dicom \<Rightarrow> string \<Rightarrow> string \<Rightarrow> string \<Rightarrow> error + dicom" where
  "anonymise d sex age patient_id =
     (let e6 = redact (elements d);
          m1 = redact_meta (file_meta d);
          age' = zfill 3 age @ ''Y'';
          sex' = sex @ '' '';
          patient_id' = (if length patient_id mod 2 = 0 then patient_id else patient_id @ '' '')
      in case assign_value ''PatientSex'' sex' e6 of
           Inl err \<Rightarrow> Inl err
         | Inr e7 \<Rightarrow>
             (case assign_value ''PatientAge'' age' e7 of
                Inl err \<Rightarrow> Inl err
              | Inr e8 \<Rightarrow>
                  (case assign_value ''PatientID'' patient_id' e8 of
                     Inl err \<Rightarrow> Inl err
                   | Inr e9 \<Rightarrow> Inr \<lparr>elements = e9, file_meta = m1\<rparr>)))"

subsection \<open>The environment: file system, regular expressions, clock\<close>

text \<open>
  What the program finds around it: what a path holds, which directories cannot be
  created, which files cannot be written, the paths \<^verbatim>\<open>save_as\<close> has written so far
  (in order), what \<^verbatim>\<open>re.sub\<close> returns or raises for a pattern or a replacement that is
  not plain text, and the text of an exception.
\<close>

datatype content = Dicom dicom | NotDicom

record world =
  fs :: "string \<Rightarrow> content option"
  makedirs_fails :: "string \<Rightarrow> bool"
  save_fails :: "string \<Rightarrow> bool"
  written :: "string list"
  regex_sub :: "string \<Rightarrow> string \<Rightarrow> string \<Rightarrow> error + string"
  exception_text :: "error \<Rightarrow> string"

text \<open>
  \<^verbatim>\<open>re.sub(pat, rep, s)\<close> as \<^verbatim>\<open>process_folder\<close> calls it on the dataset root and on
  the session token, which are data. A pattern without any of the special characters
  \<^verbatim>\<open>. ^ $ * + ? { } [ ] \ | ( )\<close> matches itself, and a replacement without backslash
  stands for itself: then the call is the replacement of plain text. Any other call is
  left to the regular-expression engine of the environment, which returns a string or
  raises \<^verbatim>\<open>re.error\<close>.
\<close>

definition re_special :: "char \<Rightarrow> bool" where
  "re_special c = (c \<in> set [CHR 0x2E, CHR 0x5E, CHR 0x24, CHR 0x2A, CHR 0x2B, CHR 0x3F,
                            CHR 0x7B, CHR 0x7D, CHR 0x5B, CHR 0x5D, CHR 0x5C, CHR 0x7C,
                            CHR 0x28, CHR 0x29])"

definition py_re_sub :: "world \<Rightarrow> string \<Rightarrow> string \<Rightarrow> string \<Rightarrow> error + string" where
  "py_re_sub w pat rep s =
     (if list_ex re_special pat \<or> CHR 0x5C \<in> set rep then regex_sub w pat rep s
      else Inr (re_sub pat rep s))"

definition dcmread :: "world \<Rightarrow> string \<Rightarrow> error + dicom" where
  "dcmread w p =
     (case fs w p of
        None \<Rightarrow> Inl (FileNotFoundError p)
      | Some NotDicom \<Rightarrow> Inl (InvalidDicomError p)
      | Some (Dicom d) \<Rightarrow> Inr d)"

definition makedirs :: "world \<Rightarrow> string \<Rightarrow> error + unit" where
  "makedirs w p = (if makedirs_fails w p then Inl (OSError p) else Inr ())"

definition save_as :: "world \<Rightarrow> dicom \<Rightarrow> string \<Rightarrow> error + world" where
  "save_as w d p =
     (if save_fails w p then Inl (OSError p)
      else Inr (w\<lparr>fs := (fs w)(p \<mapsto> Dicom d), written := written w @ [p]\<rparr>))"

text \<open>
  \<^verbatim>\<open>datetime.now()\<close> and \<^verbatim>\<open>strftime("%Y%m%d%H%M%S")[2:]\<close>. The clock is the sequence
  of the values that successive calls of \<^verbatim>\<open>datetime.now()\<close> return.
\<close>

record datetime =
  year :: nat
  month :: nat
  day :: nat
  hour :: nat
  minute :: nat
  second :: nat

definition strftime :: "datetime \<Rightarrow> string" where
  "strftime t = fmt_0d 4 (year t) @ fmt_0d 2 (month t) @ fmt_0d 2 (day t)
                  @ fmt_0d 2 (hour t) @ fmt_0d 2 (minute t) @ fmt_0d 2 (second t)"

definition now_token :: "datetime \<Rightarrow> string" where
  "now_token t = drop 2 (strftime t)"

text \<open>
  The loop \<^verbatim>\<open>while last_date_time == date_time: date_time = ...\<close>; \<open>i\<close> counts the
  clock reads made so far. A clock that never leaves \<open>last_date_time\<close> keeps the loop
  running: the result is \<^const>\<open>None\<close>.
\<close>

partial_function (option) retry_token :: "(nat \<Rightarrow> datetime) \<Rightarrow> nat \<Rightarrow> string \<Rightarrow> string \<Rightarrow> string option" where
  "retry_token clock i last_date_time date_time =
     (if last_date_time = date_time
      then retry_token clock (Suc i) last_date_time (now_token (clock i))
      else Some date_time)"

declare retry_token.simps [code]

definition fresh_token :: "(nat \<Rightarrow> datetime) \<Rightarrow> string \<Rightarrow> string option" where
  "fresh_token clock last_date_time = retry_token clock 1 last_date_time (now_token (clock 0))"

subsection \<open>The Session Processor\<close>

text \<open>
  The body of the \<^verbatim>\<open>try\<close> block for one file. \<open>date_time\<close> is \<^const>\<open>None\<close> when the
  local variable was never assigned, and \<^verbatim>\<open>names[idx]\<close> raises \<^verbatim>\<open>IndexError\<close>
  out of range. \<^verbatim>\<open>validate_checksum\<close> catches every exception
  of its own, changes nothing and its result is dropped, so it does not appear. A file
  that fails leaves the world as it was (the directories that \<^verbatim>\<open>os.makedirs\<close> creates
  are not part of the world).
\<close>

definition process_file ::
  "string \<Rightarrow> string \<Rightarrow> string option \<Rightarrow> string list \<Rightarrow> nat \<Rightarrow> string \<Rightarrow> world \<Rightarrow> error + world" where
  "process_file root path date_time names idx filename w =
     (let file_path = os_path_join root filename in
      case dcmread w file_path of
        Inl err \<Rightarrow> Inl err
      | Inr x \<Rightarrow>
          (case extract_id_sex_age file_path of
             Inl err \<Rightarrow> Inl err
           | Inr (mater_id, sex, age) \<Rightarrow>
               (case date_time of
                  None \<Rightarrow> Inl (UnboundLocalError ''date_time'')
                | Some dt \<Rightarrow>
                    (let patient_id = dt @ mater_id @ ''M'' in
                     case anonymise x sex age patient_id of
                       Inl err \<Rightarrow> Inl err
                     | Inr anonym_x \<Rightarrow>
                         (let save_to = re_sub_DICOM file_path in
                          case py_re_sub w path ''Anonymised'' save_to of
                            Inl err \<Rightarrow> Inl err
                          | Inr save_to \<Rightarrow>
                              (case py_re_sub w mater_id patient_id save_to of
                                 Inl err \<Rightarrow> Inl err
                               | Inr save_to \<Rightarrow>
                                   (case makedirs w save_to of
                                      Inl err \<Rightarrow> Inl err
                                    | Inr _ \<Rightarrow>
                                        if idx < length names
                                        then save_as w anonym_x
                                               (os_path_join save_to
                                                  (''EXP'' @ names ! idx @ ''.dcm''))
                                        else Inl IndexError)))))))"

text \<open>
  The \<^verbatim>\<open>for\<close> loop over \<^verbatim>\<open>enumerate(files)\<close> with its \<^verbatim>\<open>except\<close> clause: a
  failed file adds its path and the error text to \<open>problematic\<close> and the loop goes on.
\<close>

fun for_each_file ::
  "string \<Rightarrow> string \<Rightarrow> string option \<Rightarrow> string list \<Rightarrow> (nat \<times> string) list
     \<Rightarrow> string list \<Rightarrow> world \<Rightarrow> string list \<times> world" where
  "for_each_file root path date_time names [] problematic w = (problematic, w)"
| "for_each_file root path date_time names ((idx, filename) # rest) problematic w =
     (case process_file root path date_time names idx filename w of
        Inl e \<Rightarrow>
          for_each_file root path date_time names rest
            (problematic @ [os_path_join root filename @ '': '' @ exception_text w e]) w
      | Inr w' \<Rightarrow> for_each_file root path date_time names rest problematic w')"

definition new_patient :: "string \<Rightarrow> string \<times> string \<Rightarrow> string \<Rightarrow> bool" where
  "new_patient root cat last_directory =
     (if re_sub (fst cat) (snd cat) root = last_directory
         \<or> re_sub (snd cat) (fst cat) root = last_directory
      then False else True)"

text \<open>
  \<^verbatim>\<open>process_folder(args)\<close>: the returned pair \<open>(problematic, empty_dir)\<close> and the
  world it leaves; \<^const>\<open>None\<close> when the token loop does not end. \<open>cat\<close> is the pair
  of the two category names, which \<^verbatim>\<open>main\<close> fixes as plain text.
\<close>

definition process_folder ::
  "(nat \<Rightarrow> datetime) \<Rightarrow> world
     \<Rightarrow> string \<times> string list \<times> string \<times> (string \<times> string) \<times> string \<times> string
     \<Rightarrow> ((string list \<times> string list) \<times> world) option" where
  "process_folder clock w args =
     (case args of (root, files, path, cat, last_directory, last_date_time) \<Rightarrow>
        if files = [] then Some (([], [root]), w)
        else
          (case (if new_patient root cat last_directory
                 then map_option Some (fresh_token clock last_date_time)
                 else Some None) of
             None \<Rightarrow> None
           | Some date_time \<Rightarrow>
               (let names = map (fmt_0d 4) [0 ..< length files];
                    files = sort files;
                    (problematic, w') =
                      for_each_file root path date_time names (enumerate 0 files) [] w
                in Some ((problematic, []), w'))))"

subsection \<open>The Batch Driver's work list\<close>

text \<open>
  \<open>walk\<close> is what \<^verbatim>\<open>os.walk(args.path)\<close> yields: triples of a directory, its
  subdirectories and its files. \<^verbatim>\<open>main\<close> builds one work item for each directory
  whose path contains \<^verbatim>\<open>EXP00000\<close>.
\<close>

definition all_roots ::
  "(string \<times> string list \<times> string list) list \<Rightarrow> string
     \<Rightarrow> (string \<times> string list \<times> string \<times> (string \<times> string) \<times> string \<times> string) list" where
  "all_roots walk path =
     (let cat = (''T2_AX'', ''T2_SAG''); last_date_time = [] in
      map (\<lambda>(root, dirs, files). (root, files, path, cat, [], last_date_time))
        (filter (\<lambda>(root, dirs, files). is_substring ''EXP00000'' root) walk))"

subsection \<open>A sample data set\<close>

text \<open>
  Concrete inputs on which the properties below are evaluated: a record with the three
  patient fields, two redaction fields, a private element and a sequence; a clock that
  advances by one second per reading; a session directory with three readable files and
  one that is not a DICOM file; and a world in which every path holds the sample record.
\<close>

definition sample_record :: dicom where
  "sample_record =
     \<lparr>elements =
        [(Keyword ''PatientID'', Str ''RSSMRA80A01H501U''),
         (Keyword ''PatientSex'', Str ''F''),
         (Keyword ''PatientAge'', Str ''034Y''),
         (Keyword ''PatientBirthDate'', Str ''19800101''),
         (Keyword ''InstitutionName'', Str ''Ospedale''),
         (PrivateTag 9 16, Str ''vendor''),
         (Keyword ''RequestAttributesSequence'',
            Seq [[(Keyword ''ScheduledProcedureStepID'', Str ''1'')]])],
      file_meta =
        [(Keyword ''TransferSyntaxUID'', Str ''1.2.840.10008.1.2.1''),
         (Keyword ''PrivateInformation'', Str ''x'')]\<rparr>"

definition sample_clock :: "nat \<Rightarrow> datetime" where
  "sample_clock i =
     \<lparr>year = 2026, month = 11, day = 3, hour = 9, minute = 5, second = i mod 60\<rparr>"

definition sample_root :: string where
  "sample_root = ''/Dataset/12 F 034/T2_SAG_1/DICOM/EXP00000''"

text \<open>
  The exception texts of the sample environment, as a current interpreter and DICOM
  library word them; the regular-expression engine of the sample environment is not
  consulted, since the dataset root \<^verbatim>\<open>/Dataset\<close> and the tokens are plain text.
\<close>

fun sample_text :: "error \<Rightarrow> string" where
  "sample_text (AttributeError a) =
     [CHR 0x27] @ ''NoneType'' @ [CHR 0x27] @ '' object has no attribute '' @ [CHR 0x27] @ a @ [CHR 0x27]"
| "sample_text IndexError = ''list index out of range''"
| "sample_text (KeyError k) =
     (if k = ''PatientSex'' then ''(0010,0040)''
      else if k = ''PatientAge'' then ''(0010,1010)''
      else if k = ''PatientID'' then ''(0010,0020)''
      else [CHR 0x27] @ k @ [CHR 0x27])"
| "sample_text (UnboundLocalError v) =
     ''cannot access local variable '' @ [CHR 0x27] @ v @ [CHR 0x27]
       @ '' where it is not associated with a value''"
| "sample_text (FileNotFoundError p) =
     ''[Errno 2] No such file or directory: '' @ [CHR 0x27] @ p @ [CHR 0x27]"
| "sample_text (InvalidDicomError p) =
     ''File is missing DICOM File Meta Information header or the '' @ [CHR 0x27] @ ''DICM''
       @ [CHR 0x27] @ '' prefix is missing from the header. Use force=True to force reading.''"
| "sample_text (OSError p) = ''[Errno 13] Permission denied: '' @ [CHR 0x27] @ p @ [CHR 0x27]"
| "sample_text (ReError pat) = ''nothing to repeat at position 0''"

definition sample_world :: world where
  "sample_world =
     \<lparr>fs = map_of
        [(''/Dataset/12 F 034/T2_SAG_1/DICOM/EXP00000/IM0001'', Dicom sample_record),
         (''/Dataset/12 F 034/T2_SAG_1/DICOM/EXP00000/IM0002'', NotDicom),
         (''/Dataset/12 F 034/T2_SAG_1/DICOM/EXP00000/IM0003'', Dicom sample_record),
         (''/Dataset/12 F 034/T2_SAG_1/DICOM/EXP00000/IM0004'', Dicom sample_record)],
      makedirs_fails = (\<lambda>p. False),
      save_fails = (\<lambda>p. False),
      written = [],
      regex_sub = (\<lambda>pat rep s. Inl (ReError pat)),
      exception_text = sample_text\<rparr>"

definition uniform_world :: world where
  "uniform_world =
     \<lparr>fs = (\<lambda>p. Some (Dicom sample_record)),
      makedirs_fails = (\<lambda>p. False),
      save_fails = (\<lambda>p. False),
      written = [],
      regex_sub = (\<lambda>pat rep s. Inl (ReError pat)),
      exception_text = sample_text\<rparr>"

text \<open>
  A second session directory content: the second file is not a DICOM file, the third
  holds a record without the sex field, the output of the fourth cannot be written.
\<close>

definition incomplete_record :: dicom where
  "incomplete_record =
     \<lparr>elements =
        [(Keyword ''PatientID'', Str ''RSSMRA80A01H501U''),
         (Keyword ''PatientAge'', Str ''034Y'')],
      file_meta = []\<rparr>"

definition mixed_world :: world where
  "mixed_world =
     \<lparr>fs = map_of
        [(''/Dataset/12 F 034/T2_SAG_1/DICOM/EXP00000/IM0001'', Dicom sample_record),
         (''/Dataset/12 F 034/T2_SAG_1/DICOM/EXP00000/IM0002'', NotDicom),
         (''/Dataset/12 F 034/T2_SAG_1/DICOM/EXP00000/IM0003'', Dicom incomplete_record),
         (''/Dataset/12 F 034/T2_SAG_1/DICOM/EXP00000/IM0004'', Dicom sample_record),
         (''/Dataset/12 F 034/T2_SAG_1/DICOM/EXP00000/IM0005'', Dicom sample_record)],
      makedirs_fails = (\<lambda>p. False),
      save_fails = (\<lambda>p. p = ''Anonymised/26110309050012M F 034/T2_SAG_1/EXP0003.dcm''),
      written = [],
      regex_sub = (\<lambda>pat rep s. Inl (ReError pat)),
      exception_text = sample_text\<rparr>"

section \<open>Properties\<close>

subsection \<open>The Identity Extractor\<close>

lemma digit_not_space: "is_digit c \<Longrightarrow> \<not> is_space c"
  by (auto simp: is_digit_def is_space_def)

lemma sex_not_space: "x = CHR ''F'' \<or> x = CHR ''M'' \<Longrightarrow> \<not> is_space x \<and> \<not> is_digit x"
  by (auto simp: is_digit_def is_space_def)

lemma space_is_space: "is_space (CHR '' '')" "\<not> is_digit (CHR '' '')"
  by (simp_all add: is_space_def is_digit_def)

lemma split_from_token:
  "\<forall>c \<in> set ds. \<not> is_space c \<Longrightarrow> split_from cur (ds @ rest) = split_from (cur @ ds) rest"
  by (induction ds arbitrary: cur) simp_all

lemma strip_id: "\<forall>c \<in> set s. \<not> is_space c \<Longrightarrow> strip s = s"
proof -
  assume a: "\<forall>c \<in> set s. \<not> is_space c"
  then have "dropWhile is_space s = s" by (cases s) simp_all
  moreover from a have "dropWhile is_space (rev s) = rev s" by (cases "rev s") (auto simp: rev_eq_Cons_iff)
  ultimately show ?thesis by (simp add: strip_def)
qed

lemma str_split_group:
  assumes "d1 \<noteq> []" "d2 \<noteq> []" "\<forall>c \<in> set d1. is_digit c" "\<forall>c \<in> set d2. is_digit c"
    "x = CHR ''F'' \<or> x = CHR ''M''"
  shows "str_split (d1 @ [CHR '' '', x, CHR '' ''] @ d2) = [d1, [x], d2]"
proof -
  have n1: "\<forall>c \<in> set d1. \<not> is_space c" and n2: "\<forall>c \<in> set d2. \<not> is_space c"
    using assms digit_not_space by blast+
  have nx: "\<not> is_space x" using assms(5) sex_not_space by blast
  have "str_split (d1 @ [CHR '' '', x, CHR '' ''] @ d2) = split_from d1 ([CHR '' '', x, CHR '' ''] @ d2)"
    unfolding str_split_def using split_from_token[OF n1, of "[]"] by simp
  also have "\<dots> = d1 # [x] # split_from [] d2"
    using assms(1) nx by (simp add: space_is_space)
  also have "split_from [] d2 = [d2]"
    using split_from_token[OF n2, of "[]" "[]"] assms(2) by simp
  finally show ?thesis .
qed

lemma match_here_Some:
  assumes "match_here s = Some g"
  shows "\<exists>d1 x d2 r. s = g @ r \<and> g = d1 @ [CHR '' '', x, CHR '' ''] @ d2 \<and> d1 \<noteq> [] \<and> d2 \<noteq> []
     \<and> (\<forall>c \<in> set d1. is_digit c) \<and> (\<forall>c \<in> set d2. is_digit c) \<and> (x = CHR ''F'' \<or> x = CHR ''M'')"
proof -
  let ?d1 = "takeWhile is_digit s"
  from assms have d1: "?d1 \<noteq> []" by (auto simp: match_here_def Let_def split: if_splits)
  from assms d1 obtain sp1 x sp2 r where r: "dropWhile is_digit s = sp1 # x # sp2 # r"
    by (auto simp: match_here_def Let_def split: if_splits list.splits)
  let ?d2 = "takeWhile is_digit r"
  from assms d1 r have c: "sp1 = CHR '' ''" "x = CHR ''F'' \<or> x = CHR ''M''" "sp2 = CHR '' ''" "?d2 \<noteq> []"
    and g: "g = ?d1 @ [sp1, x, sp2] @ ?d2"
    by (auto simp: match_here_def Let_def split: if_splits)
  have "s = ?d1 @ dropWhile is_digit s" by simp
  also have "\<dots> = ?d1 @ [sp1, x, sp2] @ ?d2 @ dropWhile is_digit r" using r by simp
  finally have "s = g @ dropWhile is_digit r" using g by simp
  moreover have "\<forall>c \<in> set ?d1. is_digit c" "\<forall>c \<in> set ?d2. is_digit c"
    by (auto dest: set_takeWhileD)
  ultimately show ?thesis using c d1 g by blast
qed

lemma match_here_at:
  assumes "d1 \<noteq> []" "d2 \<noteq> []" "\<forall>c \<in> set d1. is_digit c" "\<forall>c \<in> set d2. is_digit c"
    "x = CHR ''F'' \<or> x = CHR ''M''"
  shows "match_here (d1 @ [CHR '' '', x, CHR '' ''] @ d2 @ post)
           = Some (d1 @ [CHR '' '', x, CHR '' ''] @ d2 @ takeWhile is_digit post)"
proof -
  define s where "s = d1 @ [CHR '' '', x, CHR '' ''] @ d2 @ post"
  have t1: "takeWhile is_digit s = d1"
    unfolding s_def using assms(3) by (simp add: takeWhile_append2 space_is_space)
  have t2: "dropWhile is_digit s = CHR '' '' # x # CHR '' '' # (d2 @ post)"
    unfolding s_def using assms(3) by (simp add: dropWhile_append2 space_is_space)
  have t3: "takeWhile is_digit (d2 @ post) = d2 @ takeWhile is_digit post"
    using assms(4) by (simp add: takeWhile_append2)
  have "match_here s = Some (d1 @ [CHR '' '', x, CHR '' ''] @ d2 @ takeWhile is_digit post)"
    unfolding match_here_def Let_def t1 t2 using assms(1,2,5) by (simp add: t3)
  then show ?thesis unfolding s_def .
qed

lemma match_here_no_digit: "\<not> is_digit c \<Longrightarrow> match_here (c # cs) = None"
  by (simp add: match_here_def)

lemma re_search_Some:
  "re_search s = Some g \<Longrightarrow> \<exists>pre r. s = pre @ g @ r \<and> match_here (g @ r) = Some g"
proof (induction s)
  case Nil
  then show ?case by simp
next
  case (Cons c cs)
  show ?case
  proof (cases "match_here (c # cs)")
    case None
    with Cons.prems have "re_search cs = Some g" by simp
    from Cons.IH[OF this] obtain pre r where "cs = pre @ g @ r" "match_here (g @ r) = Some g" by blast
    then have "c # cs = (c # pre) @ g @ r \<and> match_here (g @ r) = Some g" by simp
    then show ?thesis by blast
  next
    case (Some m)
    with Cons.prems have mg: "m = g" by simp
    from match_here_Some[OF Some] obtain r where "c # cs = m @ r" by blast
    with Some mg have "c # cs = [] @ g @ r \<and> match_here (g @ r) = Some g" by simp
    then show ?thesis by blast
  qed
qed

lemma re_search_finds:
  assumes "match_here s \<noteq> None"
  shows "re_search (pre @ s) \<noteq> None"
proof (induction pre)
  case Nil
  from assms have "s \<noteq> []" by (auto simp: match_here_def)
  then obtain c cs where "s = c # cs" by (cases s) auto
  with assms show ?case by (auto split: option.splits)
next
  case (Cons c pre)
  then show ?case by (auto split: option.splits)
qed

lemma re_search_leftmost:
  assumes "\<forall>c \<in> set pre. \<not> is_digit c" "match_here s = Some g"
  shows "re_search (pre @ s) = Some g"
  using assms(1)
proof (induction pre)
  case Nil
  from assms(2) have "s \<noteq> []" by (auto simp: match_here_def)
  then obtain c cs where "s = c # cs" by (cases s) auto
  with assms(2) show ?case by simp
next
  case (Cons c pre)
  then show ?case by (simp add: match_here_no_digit)
qed

lemma is_substring_iff: "is_substring sub s \<longleftrightarrow> (\<exists>pre post. s = pre @ sub @ post)"
proof (induction s)
  case Nil
  then show ?case by auto
next
  case (Cons c cs)
  show ?case
  proof
    assume "is_substring sub (c # cs)"
    then consider "prefix sub (c # cs)" | "is_substring sub cs" by auto
    then show "\<exists>pre post. c # cs = pre @ sub @ post"
    proof cases
      case 1
      then obtain post where "c # cs = sub @ post" by (auto simp: prefix_def)
      then have "c # cs = [] @ sub @ post" by simp
      then show ?thesis by blast
    next
      case 2
      with Cons.IH obtain pre post where "cs = pre @ sub @ post" by blast
      then have "c # cs = (c # pre) @ sub @ post" by simp
      then show ?thesis by blast
    qed
  next
    assume "\<exists>pre post. c # cs = pre @ sub @ post"
    then obtain pre post where e: "c # cs = pre @ sub @ post" by blast
    show "is_substring sub (c # cs)"
    proof (cases pre)
      case Nil
      with e have "prefix sub (c # cs)" by (simp add: prefix_def)
      then show ?thesis by simp
    next
      case (Cons a pre')
      with e have "cs = pre' @ sub @ post" by simp
      with Cons.IH have "is_substring sub cs" by blast
      then show ?thesis by simp
    qed
  qed
qed


lemma extract_of_group:
  assumes "re_search path = Some (d1 @ [CHR '' '', x, CHR '' ''] @ d2)"
    "d1 \<noteq> []" "d2 \<noteq> []" "\<forall>c \<in> set d1. is_digit c" "\<forall>c \<in> set d2. is_digit c"
    "x = CHR ''F'' \<or> x = CHR ''M''"
  shows "extract_id_sex_age path = Inr (d1, [x], d2)"
proof -
  have "strip d1 = d1" "strip d2 = d2" "strip [x] = [x]"
    using assms(4,5,6) digit_not_space sex_not_space by (auto intro!: strip_id)
  then show ?thesis
    unfolding extract_id_sex_age_def assms(1) using str_split_group[OF assms(2-6)] by simp
qed







subsection \<open>Field redaction and the Record Anonymizer\<close>

lemma contains_simps:
  "contains k [] = False"
  "contains k ((t, v) # e) = (t = Keyword k \<or> contains k e)"
  by (auto simp: contains_def)

lemma set_value_simps:
  "set_value k v [] = []"
  "set_value k v ((t, x) # e) = (if t = Keyword k then (t, v) else (t, x)) # set_value k v e"
  by (simp_all add: set_value_def)

lemma pop_simps:
  "pop k [] = []"
  "pop k ((t, x) # e) = (if t = Keyword k then pop k e else (t, x) # pop k e)"
  by (simp_all add: pop_def)

lemma remove_private_tags_simps:
  "remove_private_tags [] = []"
  "remove_private_tags ((t, x) # e) =
     (if is_private t then remove_private_tags e else (t, remove_private_value x) # remove_private_tags e)"
  by (simp_all add: remove_private_tags_def)

lemma remove_private_value_Seq: "remove_private_value (Seq items) = Seq (map remove_private_tags items)"
  by (simp add: remove_private_tags_def)

lemma set_value_absent: "\<not> contains k e \<Longrightarrow> set_value k v e = e"
  by (induction e) (auto simp: contains_simps set_value_simps)

lemma pop_absent: "\<not> contains k e \<Longrightarrow> pop k e = e"
  by (induction e) (auto simp: contains_simps pop_simps)

lemma guarded_set_value: "(if contains k e then set_value k v e else e) = set_value k v e"
  by (simp add: set_value_absent)

lemma guarded_pop: "(if contains k e then pop k e else e) = pop k e"
  by (simp add: pop_absent)

lemma redact_eq:
  "redact e =
     pop ''RequestAttributesSequence'' (pop ''IrradiationEventUID''
       (set_value ''ImageComments'' (Str [])
       (set_value ''ReferringPhysicianName'' (Str [])
       (set_value ''InstitutionAddress'' (Str [])
       (set_value ''InstitutionName'' (Str [])
       (set_value ''TimeOfLastCalibration'' (Str ''094338'')
       (set_value ''PatientBirthDate'' (Str ''20250419'')
       (set_value ''DateOfLastCalibration'' (Str ''20250419'')
       (remove_private_tags e)))))))))"
  unfolding redact_def DATE_FIELDS_def TIME_FIELDS_def NAME_FIELDS_def COMMENT_FIELDS_def
      ID_FIELDS_def SEQUENCE_FIELDS_def guarded_set_value guarded_pop
  by (simp add: Let_def)

lemma remove_private_tags_idem_if:
  "\<forall>p \<in> set ds. remove_private_value (remove_private_value (snd p)) = remove_private_value (snd p)
     \<Longrightarrow> remove_private_tags (remove_private_tags ds) = remove_private_tags ds"
  by (induction ds) (auto simp: remove_private_tags_simps)

lemma remove_private_value_idem: "remove_private_value (remove_private_value v) = remove_private_value v"
proof (induction v)
  case (Str s)
  then show ?case by simp
next
  case (Seq items)
  have "remove_private_tags (remove_private_tags ds) = remove_private_tags ds" if "ds \<in> set items" for ds
  proof (rule remove_private_tags_idem_if, rule ballI)
    fix p assume "p \<in> set ds"
    with that show "remove_private_value (remove_private_value (snd p)) = remove_private_value (snd p)"
      by (intro Seq.IH[of ds p "snd p"]) (auto simp: snds.simps)
  qed
  then show ?case
    unfolding remove_private_value_Seq by simp
qed

lemma redact_Nil: "redact [] = []"
  by (simp add: redact_eq remove_private_tags_simps set_value_simps pop_simps)

lemma redact_Cons:
  "redact ((t, v) # e) =
     (if is_private t \<or> t = Keyword ''RequestAttributesSequence'' \<or> t = Keyword ''IrradiationEventUID''
      then redact e
      else (t, if t \<in> Keyword ` set [''DateOfLastCalibration'', ''PatientBirthDate''] then Str ''20250419''
               else if t = Keyword ''TimeOfLastCalibration'' then Str ''094338''
               else if t \<in> Keyword ` set [''InstitutionName'', ''InstitutionAddress'', ''ReferringPhysicianName'', ''ImageComments''] then Str []
               else remove_private_value v) # redact e)"
  by (simp add: redact_eq remove_private_tags_simps set_value_simps pop_simps)

lemma redact_idem: "redact (redact e) = redact e"
proof (induction e)
  case Nil
  then show ?case by (simp add: redact_Nil)
next
  case (Cons x e)
  obtain t v where x: "x = (t, v)" by (cases x)
  show ?case unfolding x using Cons.IH
    by (simp add: redact_Cons remove_private_value_idem)
qed

lemma contains_set_value: "contains k (set_value k' v e) = contains k e"
  by (induction e) (auto simp: contains_def set_value_def)

lemma contains_pop: "contains k (pop k' e) = (k \<noteq> k' \<and> contains k e)"
  by (induction e) (auto simp: contains_def pop_def)

lemma contains_remove_private_tags: "contains k (remove_private_tags e) = contains k e"
  by (induction e) (auto simp: contains_def remove_private_tags_def)

lemma contains_redact:
  "contains k (redact e) = (contains k e \<and> k \<noteq> ''RequestAttributesSequence'' \<and> k \<noteq> ''IrradiationEventUID'')"
  by (auto simp: redact_eq contains_pop contains_set_value contains_remove_private_tags)

lemma getitem_set_value_same: "contains k e \<Longrightarrow> getitem (set_value k v e) k = Some v"
  by (induction e) (auto simp: contains_simps set_value_simps getitem_def)

lemma getitem_set_value_other: "k \<noteq> k' \<Longrightarrow> getitem (set_value k' v e) k = getitem e k"
  by (induction e) (auto simp: set_value_simps getitem_def)

lemma getitem_None: "getitem e k = None \<longleftrightarrow> \<not> contains k e"
  by (induction e) (auto simp: contains_simps getitem_def)

lemma redact_meta_eq: "redact_meta m = pop ''PrivateInformation'' (pop ''PrivateInformationCreatorUID'' m)"
  by (simp add: redact_meta_def META_FIELDS_def)

lemma redact_meta_idem: "redact_meta (redact_meta m) = redact_meta m"
  by (induction m) (auto simp: redact_meta_eq pop_simps)

lemma anonymise_eq:
  "anonymise d sex age patient_id =
     (if \<not> contains ''PatientSex'' (elements d) then Inl (KeyError ''PatientSex'')
      else if \<not> contains ''PatientAge'' (elements d) then Inl (KeyError ''PatientAge'')
      else if \<not> contains ''PatientID'' (elements d) then Inl (KeyError ''PatientID'')
      else Inr \<lparr>elements =
                  set_value ''PatientID''
                    (Str (if length patient_id mod 2 = 0 then patient_id else patient_id @ '' ''))
                    (set_value ''PatientAge'' (Str (zfill 3 age @ ''Y''))
                      (set_value ''PatientSex'' (Str (sex @ '' '')) (redact (elements d)))),
                file_meta = redact_meta (file_meta d)\<rparr>)"
  by (simp add: anonymise_def assign_value_def Let_def contains_set_value contains_redact)

lemma write_back_idem:
  "set_value ''PatientID'' p (set_value ''PatientAge'' a (set_value ''PatientSex'' s (redact
     (set_value ''PatientID'' p (set_value ''PatientAge'' a (set_value ''PatientSex'' s (redact e)))))))
   = set_value ''PatientID'' p (set_value ''PatientAge'' a (set_value ''PatientSex'' s (redact e)))"
proof (induction e)
  case Nil
  then show ?case by (simp add: redact_Nil set_value_simps)
next
  case (Cons x e)
  obtain t v where x: "x = (t, v)" by (cases x)
  show ?case unfolding x using Cons.IH
    by (simp add: redact_Cons set_value_simps remove_private_value_idem)
qed

lemma anonymise_twice:
  assumes "anonymise d sex age patient_id = Inr d'"
  shows "anonymise d' sex age patient_id = Inr d'"
proof -
  from assms have c: "contains ''PatientSex'' (elements d)" "contains ''PatientAge'' (elements d)"
    "contains ''PatientID'' (elements d)"
    by (auto simp: anonymise_eq split: if_splits)
  with assms have d': "d' = \<lparr>elements =
                  set_value ''PatientID''
                    (Str (if length patient_id mod 2 = 0 then patient_id else patient_id @ '' ''))
                    (set_value ''PatientAge'' (Str (zfill 3 age @ ''Y''))
                      (set_value ''PatientSex'' (Str (sex @ '' '')) (redact (elements d)))),
                file_meta = redact_meta (file_meta d)\<rparr>"
    by (simp add: anonymise_eq)
  have c': "contains ''PatientSex'' (elements d')" "contains ''PatientAge'' (elements d')"
    "contains ''PatientID'' (elements d')"
    using c by (simp_all add: d' contains_set_value contains_redact)
  show ?thesis
    unfolding anonymise_eq[of d'] using c'
    by (simp add: d' write_back_idem redact_meta_idem)
qed

lemma anonymise_Inr:
  assumes "anonymise d sex age patient_id = Inr d'"
  shows "contains ''PatientSex'' (elements d) \<and> contains ''PatientAge'' (elements d)
         \<and> contains ''PatientID'' (elements d)
         \<and> elements d' =
              set_value ''PatientID''
                (Str (if length patient_id mod 2 = 0 then patient_id else patient_id @ '' ''))
                (set_value ''PatientAge'' (Str (zfill 3 age @ ''Y''))
                  (set_value ''PatientSex'' (Str (sex @ '' '')) (redact (elements d))))
         \<and> file_meta d' = redact_meta (file_meta d)"
  using assms by (auto simp: anonymise_eq split: if_splits)

lemma anonymise_Inr_fields:
  assumes "anonymise d sex age patient_id = Inr d'"
  shows "getitem (elements d') ''PatientSex'' = Some (Str (sex @ '' ''))"
    and "getitem (elements d') ''PatientAge'' = Some (Str (zfill 3 age @ ''Y''))"
    and "getitem (elements d') ''PatientID''
           = Some (Str (if length patient_id mod 2 = 0 then patient_id else patient_id @ '' ''))"
  using anonymise_Inr[OF assms]
  by (simp_all add: getitem_set_value_same getitem_set_value_other contains_set_value contains_redact)

lemma anonymise_keeps_absent:
  assumes "anonymise d sex age patient_id = Inr d'"
  shows "\<not> contains k (elements d) \<Longrightarrow> \<not> contains k (elements d')"
    and "\<not> contains k (file_meta d) \<Longrightarrow> \<not> contains k (file_meta d')"
  using anonymise_Inr[OF assms]
  by (simp_all add: contains_set_value contains_redact redact_meta_eq contains_pop)


text \<open>
  Claim C4. Applying \<^verbatim>\<open>anonymise\<close> with the same sex, age and identifier to a record
  that \<^verbatim>\<open>anonymise\<close> has returned raises nothing and returns that record unchanged.
  A call succeeds exactly when the three fields it writes are present, so an absent
  redaction field never makes it fail; and a field that is absent before the call is
  absent after it, in the data set and in the file meta information.
\<close>

theorem anonymise_idempotent:
  "(anonymise d sex age patient_id = Inr d' \<longrightarrow> anonymise d' sex age patient_id = Inr d')
   \<and> ((\<exists>r. anonymise d sex age patient_id = Inr r)
        \<longleftrightarrow> contains ''PatientSex'' (elements d) \<and> contains ''PatientAge'' (elements d)
            \<and> contains ''PatientID'' (elements d))
   \<and> (anonymise d sex age patient_id = Inr d' \<and> \<not> contains k (elements d)
        \<longrightarrow> \<not> contains k (elements d'))
   \<and> (anonymise d sex age patient_id = Inr d' \<and> \<not> contains k (file_meta d)
        \<longrightarrow> \<not> contains k (file_meta d'))"
proof (intro conjI)
  show "anonymise d sex age patient_id = Inr d' \<longrightarrow> anonymise d' sex age patient_id = Inr d'"
    using anonymise_twice by blast
  show "(\<exists>r. anonymise d sex age patient_id = Inr r)
        \<longleftrightarrow> contains ''PatientSex'' (elements d) \<and> contains ''PatientAge'' (elements d)
            \<and> contains ''PatientID'' (elements d)"
    by (auto simp: anonymise_eq)
  show "anonymise d sex age patient_id = Inr d' \<and> \<not> contains k (elements d)
        \<longrightarrow> \<not> contains k (elements d')"
    using anonymise_keeps_absent(1) by blast
  show "anonymise d sex age patient_id = Inr d' \<and> \<not> contains k (file_meta d)
        \<longrightarrow> \<not> contains k (file_meta d')"
    using anonymise_keeps_absent(2) by blast
qed


theorem anonymise_idempotent_witness:
  "anonymise
     \<lparr>elements = [(Keyword ''PatientID'', Str ''RSSMRA80A01H501U''), (Keyword ''PatientSex'', Str ''F''),
                  (PrivateTag 9 16, Str ''vendor''), (Keyword ''PatientAge'', Str ''34'')],
      file_meta = [(Keyword ''TransferSyntaxUID'', Str ''1.2.840.10008.1.2.1'')]\<rparr>
     ''F'' ''34'' ''26110309050012M''
   = Inr \<lparr>elements = [(Keyword ''PatientID'', Str ''26110309050012M ''), (Keyword ''PatientSex'', Str ''F ''),
                       (Keyword ''PatientAge'', Str ''034Y'')],
          file_meta = [(Keyword ''TransferSyntaxUID'', Str ''1.2.840.10008.1.2.1'')]\<rparr>
   \<and> anonymise
       \<lparr>elements = [(Keyword ''PatientID'', Str ''26110309050012M ''), (Keyword ''PatientSex'', Str ''F ''),
                    (Keyword ''PatientAge'', Str ''034Y'')],
        file_meta = [(Keyword ''TransferSyntaxUID'', Str ''1.2.840.10008.1.2.1'')]\<rparr>
       ''F'' ''34'' ''26110309050012M''
     = Inr \<lparr>elements = [(Keyword ''PatientID'', Str ''26110309050012M ''), (Keyword ''PatientSex'', Str ''F ''),
                         (Keyword ''PatientAge'', Str ''034Y'')],
            file_meta = [(Keyword ''TransferSyntaxUID'', Str ''1.2.840.10008.1.2.1'')]\<rparr>
   \<and> \<not> contains ''PatientBirthDate''
         [(Keyword ''PatientID'', Str ''26110309050012M ''), (Keyword ''PatientSex'', Str ''F ''),
          (Keyword ''PatientAge'', Str ''034Y'')]"
proof -
  have 1: "anonymise
     \<lparr>elements = [(Keyword ''PatientID'', Str ''RSSMRA80A01H501U''), (Keyword ''PatientSex'', Str ''F''),
                  (PrivateTag 9 16, Str ''vendor''), (Keyword ''PatientAge'', Str ''34'')],
      file_meta = [(Keyword ''TransferSyntaxUID'', Str ''1.2.840.10008.1.2.1'')]\<rparr>
     ''F'' ''34'' ''26110309050012M''
   = Inr \<lparr>elements = [(Keyword ''PatientID'', Str ''26110309050012M ''), (Keyword ''PatientSex'', Str ''F ''),
                       (Keyword ''PatientAge'', Str ''034Y'')],
          file_meta = [(Keyword ''TransferSyntaxUID'', Str ''1.2.840.10008.1.2.1'')]\<rparr>"
    by code_simp
  have 2: "\<not> contains ''PatientBirthDate''
     (elements \<lparr>elements = [(Keyword ''PatientID'', Str ''RSSMRA80A01H501U''), (Keyword ''PatientSex'', Str ''F''),
                  (PrivateTag 9 16, Str ''vendor''), (Keyword ''PatientAge'', Str ''34'')],
      file_meta = [(Keyword ''TransferSyntaxUID'', Str ''1.2.840.10008.1.2.1'')]\<rparr>)"
    by (simp add: contains_def)
  show ?thesis
    using 1 2 anonymise_idempotent
      [of "\<lparr>elements = [(Keyword ''PatientID'', Str ''RSSMRA80A01H501U''), (Keyword ''PatientSex'', Str ''F''),
                  (PrivateTag 9 16, Str ''vendor''), (Keyword ''PatientAge'', Str ''34'')],
      file_meta = [(Keyword ''TransferSyntaxUID'', Str ''1.2.840.10008.1.2.1'')]\<rparr>"
          "''F''" "''34''" "''26110309050012M''"
          "\<lparr>elements = [(Keyword ''PatientID'', Str ''26110309050012M ''), (Keyword ''PatientSex'', Str ''F ''),
                       (Keyword ''PatientAge'', Str ''034Y'')],
          file_meta = [(Keyword ''TransferSyntaxUID'', Str ''1.2.840.10008.1.2.1'')]\<rparr>"
          "''PatientBirthDate''"]
    by simp
qed


text \<open>
  Claim C5, as the code has it. When the sex, age and patient-identifier fields are all
  present, \<^verbatim>\<open>anonymise\<close> succeeds and writes the sex code followed by a space, the
  age filled to three digits followed by \<^verbatim>\<open>Y\<close>, and the identifier padded to even
  length. When one of them is absent, the call raises \<^verbatim>\<open>KeyError\<close> for the first
  absent one, in the order sex, age, identifier.
\<close>

theorem anonymise_writes_present_fields:
  "(contains ''PatientSex'' (elements d) \<and> contains ''PatientAge'' (elements d)
      \<and> contains ''PatientID'' (elements d)
     \<longrightarrow> (\<exists>d'. anonymise d sex age patient_id = Inr d'
            \<and> getitem (elements d') ''PatientSex'' = Some (Str (sex @ '' ''))
            \<and> getitem (elements d') ''PatientAge'' = Some (Str (zfill 3 age @ ''Y''))
            \<and> getitem (elements d') ''PatientID''
                = Some (Str (if length patient_id mod 2 = 0 then patient_id else patient_id @ '' ''))))
   \<and> (\<not> contains ''PatientSex'' (elements d)
     \<longrightarrow> anonymise d sex age patient_id = Inl (KeyError ''PatientSex''))
   \<and> (contains ''PatientSex'' (elements d) \<and> \<not> contains ''PatientAge'' (elements d)
     \<longrightarrow> anonymise d sex age patient_id = Inl (KeyError ''PatientAge''))
   \<and> (contains ''PatientSex'' (elements d) \<and> contains ''PatientAge'' (elements d)
      \<and> \<not> contains ''PatientID'' (elements d)
     \<longrightarrow> anonymise d sex age patient_id = Inl (KeyError ''PatientID''))"
proof (intro conjI impI)
  assume c: "contains ''PatientSex'' (elements d) \<and> contains ''PatientAge'' (elements d)
      \<and> contains ''PatientID'' (elements d)"
  then obtain d' where d': "anonymise d sex age patient_id = Inr d'"
    by (auto simp: anonymise_eq)
  with anonymise_Inr_fields[OF d']
  show "\<exists>d'. anonymise d sex age patient_id = Inr d'
            \<and> getitem (elements d') ''PatientSex'' = Some (Str (sex @ '' ''))
            \<and> getitem (elements d') ''PatientAge'' = Some (Str (zfill 3 age @ ''Y''))
            \<and> getitem (elements d') ''PatientID''
                = Some (Str (if length patient_id mod 2 = 0 then patient_id else patient_id @ '' ''))"
    by blast
qed (simp_all add: anonymise_eq)


theorem anonymise_writes_present_fields_witness:
  "\<exists>d'. anonymise
     \<lparr>elements = [(Keyword ''PatientID'', Str ''RSSMRA80A01H501U''), (Keyword ''PatientSex'', Str ''M''),
                  (Keyword ''PatientAge'', Str ''7'')],
      file_meta = []\<rparr> ''M'' ''7'' ''2611030905009M'' = Inr d'
     \<and> getitem (elements d') ''PatientSex'' = Some (Str ''M '')
     \<and> getitem (elements d') ''PatientAge'' = Some (Str ''007Y'')
     \<and> getitem (elements d') ''PatientID'' = Some (Str ''2611030905009M'')"
proof -
  have "anonymise
     \<lparr>elements = [(Keyword ''PatientID'', Str ''RSSMRA80A01H501U''), (Keyword ''PatientSex'', Str ''M''),
                  (Keyword ''PatientAge'', Str ''7'')],
      file_meta = []\<rparr> ''M'' ''7'' ''2611030905009M''
    = Inr \<lparr>elements = [(Keyword ''PatientID'', Str ''2611030905009M''), (Keyword ''PatientSex'', Str ''M ''),
                  (Keyword ''PatientAge'', Str ''007Y'')],
      file_meta = []\<rparr>"
    by code_simp
  moreover have "zfill 3 ''7'' = ''007''" by code_simp
  moreover have "length ''2611030905009M'' mod 2 = 0" by code_simp
  ultimately show ?thesis
    using anonymise_writes_present_fields
    [of "\<lparr>elements = [(Keyword ''PatientID'', Str ''RSSMRA80A01H501U''), (Keyword ''PatientSex'', Str ''M''),
                  (Keyword ''PatientAge'', Str ''7'')],
      file_meta = []\<rparr>" "''M''" "''7''" "''2611030905009M''"]
    by (simp add: contains_def)
qed


text \<open>
  Claim C5 as it is worded fails: a record without the sex field is not completed, the
  call raises \<^verbatim>\<open>KeyError\<close>.
\<close>

theorem anonymise_absent_field_counterexample:
  "anonymise
     \<lparr>elements = [(Keyword ''PatientID'', Str ''RSSMRA80A01H501U''), (Keyword ''PatientAge'', Str ''34'')],
      file_meta = []\<rparr> ''F'' ''34'' ''26110309050012M'' = Inl (KeyError ''PatientSex'')"
  by code_simp

subsection \<open>One file of a session\<close>

lemma py_re_sub_plain:
  "\<not> list_ex re_special pat \<Longrightarrow> CHR 0x5C \<notin> set rep \<Longrightarrow> py_re_sub w pat rep s = Inr (re_sub pat rep s)"
  by (simp add: py_re_sub_def)

lemma py_re_sub_env: "regex_sub w' = regex_sub w \<Longrightarrow> py_re_sub w' = py_re_sub w"
  by (intro ext) (simp add: py_re_sub_def)

lemma digit_not_special: "is_digit c \<Longrightarrow> \<not> re_special c"
  by (auto simp: is_digit_def re_special_def)

lemma digits_not_special: "\<forall>c \<in> set m. is_digit c \<Longrightarrow> \<not> list_ex re_special m"
  using digit_not_special by (auto simp: list_ex_iff)

lemma digit_not_backslash: "is_digit c \<Longrightarrow> c \<noteq> CHR 0x5C"
  by (auto simp: is_digit_def)

lemma digits_no_backslash: "\<forall>c \<in> set m. is_digit c \<Longrightarrow> CHR 0x5C \<notin> set m"
  using digit_not_backslash by blast

lemma process_file_InrE:
  assumes "process_file root path date_time names idx filename w = Inr w'"
  obtains x mater_id sex age dt anonym_x base save_to out where
    "dcmread w (os_path_join root filename) = Inr x"
    "extract_id_sex_age (os_path_join root filename) = Inr (mater_id, sex, age)"
    "date_time = Some dt"
    "anonymise x sex age (dt @ mater_id @ ''M'') = Inr anonym_x"
    "py_re_sub w path ''Anonymised'' (re_sub_DICOM (os_path_join root filename)) = Inr base"
    "py_re_sub w mater_id (dt @ mater_id @ ''M'') base = Inr save_to"
    "out = os_path_join save_to (''EXP'' @ names ! idx @ ''.dcm'')"
    "written w' = written w @ [out]"
    "fs w' = (fs w)(out \<mapsto> Dicom anonym_x)"
    "makedirs_fails w' = makedirs_fails w" "save_fails w' = save_fails w"
    "\<not> makedirs_fails w save_to"
    "\<not> save_fails w out"
    "idx < length names"
    "regex_sub w' = regex_sub w" "exception_text w' = exception_text w"
proof -
  let ?fp = "os_path_join root filename"
  from assms obtain x where x: "dcmread w ?fp = Inr x"
    by (cases "dcmread w ?fp") (simp_all add: process_file_def)
  from assms x obtain mater_id sex age where e: "extract_id_sex_age ?fp = Inr (mater_id, sex, age)"
    by (cases "extract_id_sex_age ?fp") (auto simp add: process_file_def)
  from assms x e obtain dt where dt: "date_time = Some dt"
    by (cases date_time) (simp_all add: process_file_def)
  from assms x e dt obtain anonym_x where a: "anonymise x sex age (dt @ mater_id @ ''M'') = Inr anonym_x"
    by (cases "anonymise x sex age (dt @ mater_id @ ''M'')") (simp_all add: process_file_def)
  from assms x e dt a obtain base where
    b: "py_re_sub w path ''Anonymised'' (re_sub_DICOM ?fp) = Inr base"
    by (cases "py_re_sub w path ''Anonymised'' (re_sub_DICOM ?fp)") (simp_all add: process_file_def)
  from assms x e dt a b obtain save_to where
    s: "py_re_sub w mater_id (dt @ mater_id @ ''M'') base = Inr save_to"
    by (cases "py_re_sub w mater_id (dt @ mater_id @ ''M'') base") (simp_all add: process_file_def)
  define out where "out = os_path_join save_to (''EXP'' @ names ! idx @ ''.dcm'')"
  from assms have r: "(case makedirs w save_to of Inl err \<Rightarrow> Inl err
     | Inr _ \<Rightarrow> if idx < length names then save_as w anonym_x out else Inl IndexError) = Inr w'"
    unfolding out_def by (simp add: process_file_def x e dt a b s)
  from r have m: "\<not> makedirs_fails w save_to"
    by (cases "makedirs_fails w save_to") (simp_all add: makedirs_def)
  with r have r2: "(if idx < length names then save_as w anonym_x out else Inl IndexError) = Inr w'"
    by (simp add: makedirs_def)
  then have i: "idx < length names" by (cases "idx < length names") simp_all
  with r2 have "save_as w anonym_x out = Inr w'" by simp
  then have "written w' = written w @ [out]" "fs w' = (fs w)(out \<mapsto> Dicom anonym_x)"
    "makedirs_fails w' = makedirs_fails w" "save_fails w' = save_fails w" "\<not> save_fails w out"
    "regex_sub w' = regex_sub w" "exception_text w' = exception_text w"
    by (auto simp: save_as_def split: if_splits)
  with x e dt a b s out_def m i show ?thesis
    by (intro that[of x mater_id sex age dt anonym_x base save_to out])
qed


lemma process_file_unbound:
  "process_file root path None names idx filename w \<noteq> Inr w'"
proof
  assume "process_file root path None names idx filename w = Inr w'"
  then show False
  proof (cases rule: process_file_InrE)
    case (1 x mater_id sex age dt anonym_x base save_to out)
    from 1(3) show ?thesis by simp
  qed
qed


lemma extract_Inr:
  assumes "extract_id_sex_age path = Inr (a, b, c)"
  shows "a \<noteq> [] \<and> (\<forall>x \<in> set a. is_digit x) \<and> c \<noteq> [] \<and> (\<forall>x \<in> set c. is_digit x)
         \<and> (b = ''F'' \<or> b = ''M'') \<and> is_substring (a @ '' '' @ b @ '' '' @ c) path"
proof -
  from assms obtain g where g: "re_search path = Some g"
    by (auto simp: extract_id_sex_age_def split: option.splits)
  from re_search_Some[OF g] obtain pre r where p: "path = pre @ g @ r" "match_here (g @ r) = Some g"
    by blast
  from match_here_Some[OF p(2)] obtain d1 x d2 where
    f: "g = d1 @ [CHR '' '', x, CHR '' ''] @ d2" "d1 \<noteq> []" "d2 \<noteq> []"
      "\<forall>c \<in> set d1. is_digit c" "\<forall>c \<in> set d2. is_digit c" "x = CHR ''F'' \<or> x = CHR ''M''"
    by blast
  from extract_of_group[OF g[unfolded f(1)] f(2-6)] assms
  have e: "a = d1" "b = [x]" "c = d2" by simp_all
  have "is_substring (a @ '' '' @ b @ '' '' @ c) path"
    unfolding is_substring_iff using p(1) f(1) e by auto
  with f e show ?thesis by auto
qed

lemma pad_parity: "(length (p :: string) mod 2 = 0) = even (length p)"
  by presburger

lemma pad_even_length: "even (length (if even (length p) then p else p @ '' ''))"
  by simp

lemma anonymise_Inr_patient_id:
  assumes "anonymise d sex age patient_id = Inr d'"
  shows "getitem (elements d') ''PatientID''
           = Some (Str (if even (length patient_id) then patient_id else patient_id @ '' ''))"
  using anonymise_Inr_fields(3)[OF assms] unfolding pad_parity .


text \<open>
  Claim C2. The value that a successful \<^verbatim>\<open>anonymise\<close> leaves in \<^verbatim>\<open>PatientID\<close> is
  the identifier \<open>token @ raw_session_token @ ''M''\<close> it was given, with one space
  appended exactly when that identifier has odd length, so its length is even. A file
  that \<^verbatim>\<open>process_folder\<close> writes holds this value for the session's token and the
  session token extracted from the file's path.
\<close>

theorem patient_id_even_length:
  "(anonymise d sex age (token @ raw_session_token @ ''M'') = Inr d'
     \<longrightarrow> (\<exists>v. getitem (elements d') ''PatientID'' = Some (Str v)
            \<and> v = (if even (length (token @ raw_session_token @ ''M''))
                   then token @ raw_session_token @ ''M''
                   else (token @ raw_session_token @ ''M'') @ '' '')
            \<and> even (length v)))
   \<and> (process_file root path (Some token) names idx filename w = Inr w'
     \<longrightarrow> (\<exists>raw_session_token sex age d' v.
            extract_id_sex_age (os_path_join root filename) = Inr (raw_session_token, sex, age)
          \<and> fs w' (last (written w')) = Some (Dicom d')
          \<and> getitem (elements d') ''PatientID'' = Some (Str v)
          \<and> v = (if even (length (token @ raw_session_token @ ''M''))
                 then token @ raw_session_token @ ''M''
                 else (token @ raw_session_token @ ''M'') @ '' '')
          \<and> even (length v)))"
proof (intro conjI impI)
  assume a: "anonymise d sex age (token @ raw_session_token @ ''M'') = Inr d'"
  show "\<exists>v. getitem (elements d') ''PatientID'' = Some (Str v)
            \<and> v = (if even (length (token @ raw_session_token @ ''M''))
                   then token @ raw_session_token @ ''M''
                   else (token @ raw_session_token @ ''M'') @ '' '')
            \<and> even (length v)"
    using anonymise_Inr_patient_id[OF a] pad_even_length[of "token @ raw_session_token @ ''M''"]
    by blast
next
  assume "process_file root path (Some token) names idx filename w = Inr w'"
  then show "\<exists>raw_session_token sex age d' v.
            extract_id_sex_age (os_path_join root filename) = Inr (raw_session_token, sex, age)
          \<and> fs w' (last (written w')) = Some (Dicom d')
          \<and> getitem (elements d') ''PatientID'' = Some (Str v)
          \<and> v = (if even (length (token @ raw_session_token @ ''M''))
                 then token @ raw_session_token @ ''M''
                 else (token @ raw_session_token @ ''M'') @ '' '')
          \<and> even (length v)"
  proof (cases rule: process_file_InrE)
    case (1 x mater_id sex age dt anonym_x base save_to out)
    from 1(3) have dt: "dt = token" by simp
    have a: "anonymise x sex age (token @ mater_id @ ''M'') = Inr anonym_x"
      using 1(4) unfolding dt .
    have w': "fs w' (last (written w')) = Some (Dicom anonym_x)"
      unfolding 1(8) 1(9) by simp
    show ?thesis
      using 1(2) w' anonymise_Inr_patient_id[OF a] pad_even_length[of "token @ mater_id @ ''M''"]
      by blast
  qed
qed

subsection \<open>The timestamp token\<close>

lemma retry_token_differs:
  assumes "retry_token clock i last_date_time date_time = Some t"
  shows "t \<noteq> last_date_time"
  using assms
  by (rule retry_token.raw_induct[rotated, where P = "\<lambda>clock i last_date_time date_time t. t \<noteq> last_date_time"])
     (auto split: if_splits)

lemma retry_token_terminates:
  assumes "now_token (clock (i + n)) \<noteq> last_date_time"
  shows "\<exists>t. retry_token clock i last_date_time date_time = Some t"
  using assms
proof (induction n arbitrary: i date_time)
  case 0
  show ?case
  proof (cases "last_date_time = date_time")
    case True
    with 0 show ?thesis
      by (subst retry_token.simps) (simp add: retry_token.simps[of clock "Suc i"])
  next
    case False
    then show ?thesis by (subst retry_token.simps) simp
  qed
next
  case (Suc n)
  show ?case
  proof (cases "last_date_time = date_time")
    case True
    from Suc.prems have "now_token (clock (Suc i + n)) \<noteq> last_date_time" by simp
    from Suc.IH[OF this] obtain t where
      "retry_token clock (Suc i) last_date_time (now_token (clock i)) = Some t" by blast
    with True show ?thesis by (subst retry_token.simps) simp
  next
    case False
    then show ?thesis by (subst retry_token.simps) simp
  qed
qed

lemma fresh_token_differs: "fresh_token clock last_date_time = Some t \<Longrightarrow> t \<noteq> last_date_time"
  unfolding fresh_token_def by (rule retry_token_differs)

lemma fresh_token_terminates:
  assumes "now_token (clock j) \<noteq> last_date_time"
  shows "\<exists>t. fresh_token clock last_date_time = Some t"
proof (cases j)
  case 0
  with assms show ?thesis
    unfolding fresh_token_def by (subst retry_token.simps) simp
next
  case (Suc n)
  with assms have "now_token (clock (1 + n)) \<noteq> last_date_time" by simp
  from retry_token_terminates[of clock 1 n last_date_time, OF this]
  show ?thesis unfolding fresh_token_def by blast
qed

lemma fresh_token_first:
  "now_token (clock 0) \<noteq> last_date_time \<Longrightarrow> fresh_token clock last_date_time = Some (now_token (clock 0))"
  unfolding fresh_token_def by (subst retry_token.simps) simp

lemma length_fmt_0d: "w \<le> length (fmt_0d w n)"
  by (simp add: fmt_0d_def)

lemma now_token_nonempty: "now_token t \<noteq> []"
proof -
  have "4 \<le> length (fmt_0d 4 (year t))" by (rule length_fmt_0d)
  then have "2 < length (strftime t)" by (simp add: strftime_def)
  then show ?thesis by (simp add: now_token_def)
qed

subsection \<open>Sequence indices and output paths\<close>

lemma digit_char_code: "d < 10 \<Longrightarrow> of_char (''0123456789'' ! d) = (48 + d :: nat)"
proof -
  assume d: "d < 10"
  have m: "map of_char ''0123456789'' = map (\<lambda>d. 48 + d) [0..<10::nat]"
    by (simp add: upt_rec)
  have "of_char (''0123456789'' ! d) = map of_char ''0123456789'' ! d"
    using d by (subst nth_map) simp_all
  also have "\<dots> = 48 + d" unfolding m using d by (subst nth_map) simp_all
  finally show ?thesis .
qed

lemma digit_char_is_digit: "d < 10 \<Longrightarrow> is_digit (''0123456789'' ! d)"
  unfolding is_digit_def by (rule nth_mem) simp

lemma str_nat_digits: "\<forall>c \<in> set (str_nat n). is_digit c"
proof (induction n rule: str_nat.induct)
  case (1 n)
  show ?case
  proof (cases "n < 10")
    case True
    then show ?thesis by (subst str_nat.simps) (simp add: digit_char_is_digit)
  next
    case False
    with 1 show ?thesis by (subst str_nat.simps) (simp add: digit_char_is_digit)
  qed
qed

lemma str_nat_nonempty: "str_nat n \<noteq> []"
  by (subst str_nat.simps) simp

lemma str_nat_value:
  "foldl (\<lambda>a c. 10 * a + (of_char c - 48)) 0 (str_nat n) = n"
proof (induction n rule: str_nat.induct)
  case (1 n)
  show ?case
  proof (cases "n < 10")
    case True
    then show ?thesis by (subst str_nat.simps) (simp add: digit_char_code)
  next
    case False
    with 1 show ?thesis by (subst str_nat.simps) (simp add: digit_char_code)
  qed
qed

lemma zeros_value: "foldl (\<lambda>a c. 10 * a + (of_char c - 48)) (0 :: nat) (replicate k (CHR ''0'')) = 0"
  by (induction k) simp_all

lemma fmt_0d_value: "foldl (\<lambda>a c. 10 * a + (of_char c - 48)) 0 (fmt_0d w n) = n"
  by (simp add: fmt_0d_def zeros_value str_nat_value)

lemma fmt_0d_inj: "fmt_0d w n = fmt_0d w m \<Longrightarrow> n = m"
  using fmt_0d_value by metis

lemma zero_is_digit: "is_digit (CHR ''0'')"
  by (simp add: is_digit_def)

lemma slash_not_digit: "\<not> is_digit (CHR ''/'')"
  by (simp add: is_digit_def)

lemma fmt_0d_digits: "\<forall>c \<in> set (fmt_0d w n). is_digit c"
  using str_nat_digits[of n] zero_is_digit by (auto simp: fmt_0d_def)

lemma length_str_nat_le: "n < 10 ^ k \<Longrightarrow> 0 < k \<Longrightarrow> length (str_nat n) \<le> k"
proof (induction n arbitrary: k rule: str_nat.induct)
  case (1 n)
  show ?case
  proof (cases "n < 10")
    case True
    with 1(3) show ?thesis by (subst str_nat.simps) simp
  next
    case False
    with 1(2) have "1 < k" by (cases k; cases "k - 1") auto
    then obtain k' where k: "k = Suc k'" "0 < k'" by (cases k) auto
    with 1(2) have "n div 10 < 10 ^ k'" by (simp add: less_mult_imp_div_less mult.commute)
    from 1(1)[OF False this k(2)] have "length (str_nat (n div 10)) \<le> k'" .
    with False k show ?thesis by (subst str_nat.simps) simp
  qed
qed

lemma length_fmt_0d_4: "i < 10000 \<Longrightarrow> length (fmt_0d 4 i) = 4"
proof -
  assume "i < 10000"
  then have "i < 10 ^ 4" by simp
  then have "length (str_nat i) \<le> 4" by (rule length_str_nat_le) simp
  then show ?thesis by (simp add: fmt_0d_def)
qed

lemma os_path_join_basename:
  assumes "CHR ''/'' \<notin> set n"
  shows "rev (takeWhile (\<lambda>c. c \<noteq> CHR ''/'') (rev (os_path_join a n))) = n"
proof -
  have np: "\<not> prefix ''/'' n" using assms by (cases n) auto
  have tw: "takeWhile (\<lambda>c. c \<noteq> CHR ''/'') (rev n @ CHR ''/'' # r) = rev n" for r
  proof -
    have "\<forall>c \<in> set (rev n). c \<noteq> CHR ''/''" using assms by auto
    then show ?thesis by (simp add: takeWhile_tail)
  qed
  show ?thesis
  proof (cases "a = []")
    case True
    have t: "takeWhile (\<lambda>c. c \<noteq> CHR ''/'') (rev n) = rev n"
      by (rule takeWhile_eq_all_conv[THEN iffD2]) (use assms in auto)
    have e: "os_path_join a n = n" using True np by (simp add: os_path_join_def)
    show ?thesis unfolding e t by simp
  next
    case False
    show ?thesis
    proof (cases "suffix ''/'' a")
      case True
      then obtain a' where "a = a' @ ''/''" by (auto simp: suffix_def)
      with np show ?thesis using tw[of "rev a'"] by (simp add: os_path_join_def)
    next
      case False
      with np \<open>a \<noteq> []\<close> show ?thesis using tw[of "rev a"] by (simp add: os_path_join_def)
    qed
  qed
qed

lemma exp_name_no_slash: "CHR ''/'' \<notin> set (''EXP'' @ fmt_0d 4 i @ ''.dcm'')"
proof -
  have "CHR ''/'' \<notin> set (fmt_0d 4 i)" using fmt_0d_digits[of 4 i] slash_not_digit by blast
  then show ?thesis by simp
qed

lemma out_path_inj:
  "os_path_join a (''EXP'' @ fmt_0d 4 i @ ''.dcm'') = os_path_join b (''EXP'' @ fmt_0d 4 j @ ''.dcm'')
     \<Longrightarrow> i = j"
proof -
  assume "os_path_join a (''EXP'' @ fmt_0d 4 i @ ''.dcm'') = os_path_join b (''EXP'' @ fmt_0d 4 j @ ''.dcm'')"
  then have "''EXP'' @ fmt_0d 4 i @ ''.dcm'' = ''EXP'' @ fmt_0d 4 j @ ''.dcm''"
    using os_path_join_basename[OF exp_name_no_slash, of a i]
          os_path_join_basename[OF exp_name_no_slash, of b j] by simp
  then show "i = j" by (simp add: fmt_0d_inj)
qed

lemma retry_token_digits:
  assumes "retry_token clock i last_date_time date_time = Some t"
    and "\<forall>c \<in> set date_time. is_digit c"
  shows "\<forall>c \<in> set t. is_digit c"
proof -
  have nd: "\<forall>c \<in> set (now_token d). is_digit c" for d
  proof
    fix c assume "c \<in> set (now_token d)"
    then have "c \<in> set (strftime d)" unfolding now_token_def by (rule in_set_dropD)
    then show "is_digit c" using fmt_0d_digits unfolding strftime_def by auto
  qed
  have "(\<forall>c \<in> set date_time. is_digit c) \<longrightarrow> (\<forall>c \<in> set t. is_digit c)"
    by (rule retry_token.raw_induct[rotated, where P = "\<lambda>clock i l d t. (\<forall>c \<in> set d. is_digit c) \<longrightarrow> (\<forall>c \<in> set t. is_digit c)",
         OF assms(1)])
       (auto split: if_splits simp: nd)
  with assms(2) show ?thesis by blast
qed

lemma now_token_digits: "\<forall>c \<in> set (now_token d). is_digit c"
proof
  fix c assume "c \<in> set (now_token d)"
  then have "c \<in> set (strftime d)" unfolding now_token_def by (rule in_set_dropD)
  then show "is_digit c" using fmt_0d_digits unfolding strftime_def by auto
qed

lemma fresh_token_digits:
  assumes "fresh_token clock last_date_time = Some t"
  shows "\<forall>c \<in> set t. is_digit c"
  using retry_token_digits[OF assms[unfolded fresh_token_def] now_token_digits] .

subsection \<open>The loop over the files of a session\<close>

lemma process_file_Inr_world:
  assumes "process_file root path date_time names idx filename w = Inr w'"
  shows "\<exists>out d. written w' = written w @ [out] \<and> fs w' = (fs w)(out \<mapsto> Dicom d)
           \<and> makedirs_fails w' = makedirs_fails w \<and> save_fails w' = save_fails w
           \<and> regex_sub w' = regex_sub w \<and> exception_text w' = exception_text w
           \<and> (\<exists>x. fs w (os_path_join root filename) = Some (Dicom x))"
  using assms
proof (cases rule: process_file_InrE)
  case (1 x mater_id sex age dt anonym_x base save_to out)
  from 1(1) have "fs w (os_path_join root filename) = Some (Dicom x)"
    by (auto simp: dcmread_def split: option.splits content.splits)
  with 1(8-11,15,16) show ?thesis by blast
qed

lemma for_each_file_Cons_Inl:
  "process_file root path date_time names idx filename w = Inl e \<Longrightarrow>
   for_each_file root path date_time names ((idx, filename) # rest) problematic w
     = for_each_file root path date_time names rest
         (problematic @ [os_path_join root filename @ '': '' @ exception_text w e]) w"
  by simp

lemma for_each_file_Cons_Inr:
  "process_file root path date_time names idx filename w = Inr w1 \<Longrightarrow>
   for_each_file root path date_time names ((idx, filename) # rest) problematic w
     = for_each_file root path date_time names rest problematic w1"
  by simp

lemma for_each_file_problematic:
  "for_each_file root path date_time names items problematic w = (problematic', w')
   \<Longrightarrow> \<exists>new. problematic' = problematic @ new"
proof (induction items arbitrary: problematic w)
  case Nil
  then show ?case by simp
next
  case (Cons item rest)
  obtain idx filename where item: "item = (idx, filename)" by (cases item)
  show ?case
  proof (cases "process_file root path date_time names idx filename w")
    case (Inl e)
    let ?entry = "os_path_join root filename @ '': '' @ exception_text w e"
    from Cons.prems have
      "for_each_file root path date_time names rest (problematic @ [?entry]) w = (problematic', w')"
      unfolding item for_each_file_Cons_Inl[OF Inl] .
    from Cons.IH[OF this] obtain new where "problematic' = (problematic @ [?entry]) @ new"
      by blast
    then have "problematic' = problematic @ (?entry # new)" by simp
    then show ?thesis by (rule exI)
  next
    case (Inr w1)
    from Cons.prems have
      "for_each_file root path date_time names rest problematic w1 = (problematic', w')"
      unfolding item for_each_file_Cons_Inr[OF Inr] .
    from Cons.IH[OF this] show ?thesis .
  qed
qed

lemma for_each_file_count:
  "for_each_file root path date_time names items problematic w = (problematic', w')
   \<Longrightarrow> \<exists>outs. written w' = written w @ outs
         \<and> length problematic' + length outs = length problematic + length items"
proof (induction items arbitrary: problematic w)
  case Nil
  then show ?case by simp
next
  case (Cons item rest)
  obtain idx filename where item: "item = (idx, filename)" by (cases item)
  show ?case
  proof (cases "process_file root path date_time names idx filename w")
    case (Inl e)
    let ?entry = "os_path_join root filename @ '': '' @ exception_text w e"
    from Cons.prems have
      "for_each_file root path date_time names rest (problematic @ [?entry]) w = (problematic', w')"
      unfolding item for_each_file_Cons_Inl[OF Inl] .
    from Cons.IH[OF this] obtain outs where
      "written w' = written w @ outs"
      "length problematic' + length outs = length (problematic @ [?entry]) + length rest"
      by blast
    then have "written w' = written w @ outs
         \<and> length problematic' + length outs = length problematic + length (item # rest)"
      by simp
    then show ?thesis by (rule exI)
  next
    case (Inr w1)
    from Cons.prems have
      "for_each_file root path date_time names rest problematic w1 = (problematic', w')"
      unfolding item for_each_file_Cons_Inr[OF Inr] .
    from Cons.IH[OF this] obtain outs where
      o: "written w' = written w1 @ outs"
      "length problematic' + length outs = length problematic + length rest"
      by blast
    from process_file_Inr_world[OF Inr] obtain out where "written w1 = written w @ [out]"
      by blast
    with o have "written w' = written w @ (out # outs)
         \<and> length problematic' + length (out # outs) = length problematic + length (item # rest)"
      by simp
    then show ?thesis by (rule exI)
  qed
qed

lemma for_each_file_problematic_grows:
  assumes "for_each_file root path date_time names items problematic w = (problematic', w')"
  shows "length problematic \<le> length problematic'"
proof -
  from for_each_file_problematic[OF assms] obtain new where "problematic' = problematic @ new" by blast
  then show ?thesis by simp
qed

lemma for_each_file_env:
  "for_each_file root path date_time names items problematic w = (problematic', w')
   \<Longrightarrow> regex_sub w' = regex_sub w \<and> exception_text w' = exception_text w
       \<and> makedirs_fails w' = makedirs_fails w \<and> save_fails w' = save_fails w"
proof (induction items arbitrary: problematic w)
  case Nil
  then show ?case by simp
next
  case (Cons item rest)
  obtain idx filename where item: "item = (idx, filename)" by (cases item)
  show ?case
  proof (cases "process_file root path date_time names idx filename w")
    case (Inl e)
    let ?entry = "os_path_join root filename @ '': '' @ exception_text w e"
    from Cons.prems have
      "for_each_file root path date_time names rest (problematic @ [?entry]) w = (problematic', w')"
      unfolding item for_each_file_Cons_Inl[OF Inl] .
    from Cons.IH[OF this] show ?thesis .
  next
    case (Inr w1)
    from Cons.prems have
      "for_each_file root path date_time names rest problematic w1 = (problematic', w')"
      unfolding item for_each_file_Cons_Inr[OF Inr] .
    from Cons.IH[OF this] process_file_Inr_world[OF Inr] show ?thesis by auto
  qed
qed

lemma upt_shift:
  "map f [0 ..< Suc n] = f 0 # map (\<lambda>k. f (Suc k)) [0 ..< n]"
  by (rule map_upt_Suc)

lemma for_each_file_trace:
  "for_each_file root path date_time names items problematic w = (problematic', w')
   \<Longrightarrow> \<exists>ws. length ws = Suc (length items) \<and> ws ! 0 = w \<and> ws ! length items = w'
        \<and> (\<forall>k < length items.
             ws ! Suc k =
               (case process_file root path date_time names (fst (items ! k)) (snd (items ! k)) (ws ! k)
                of Inl e \<Rightarrow> ws ! k | Inr w1 \<Rightarrow> w1))
        \<and> problematic' = problematic @ concat (map (\<lambda>k.
             case process_file root path date_time names (fst (items ! k)) (snd (items ! k)) (ws ! k)
             of Inl e \<Rightarrow> [os_path_join root (snd (items ! k)) @ '': '' @ exception_text w e]
              | Inr w1 \<Rightarrow> []) [0 ..< length items])
        \<and> written w' = written w @ concat (map (\<lambda>k.
             case process_file root path date_time names (fst (items ! k)) (snd (items ! k)) (ws ! k)
             of Inl e \<Rightarrow> [] | Inr w1 \<Rightarrow> [last (written w1)]) [0 ..< length items])"
proof (induction items arbitrary: problematic w)
  case Nil
  then have n: "problematic' = problematic" "w' = w" by simp_all
  show ?case unfolding n by (rule exI[of _ "[w]"]) simp
next
  case (Cons item rest)
  obtain idx filename where item: "item = (idx, filename)" by (cases item)
  let ?P = "\<lambda>its k v. process_file root path date_time names (fst (its ! k)) (snd (its ! k)) v"
  have P0: "?P (item # rest) 0 v = process_file root path date_time names idx filename v" for v
    by (simp add: item)
  have PS: "?P (item # rest) (Suc k) v = ?P rest k v" for k v by simp
  show ?case
  proof (cases "process_file root path date_time names idx filename w")
    case (Inl e)
    let ?entry = "os_path_join root filename @ '': '' @ exception_text w e"
    from Cons.prems have
      "for_each_file root path date_time names rest (problematic @ [?entry]) w = (problematic', w')"
      unfolding item for_each_file_Cons_Inl[OF Inl] .
    from Cons.IH[OF this] obtain ws where
      A: "length ws = Suc (length rest)" and B: "ws ! 0 = w" and C: "ws ! length rest = w'"
      and D: "\<forall>k < length rest. ws ! Suc k = (case ?P rest k (ws ! k) of Inl e \<Rightarrow> ws ! k | Inr w1 \<Rightarrow> w1)"
      and E: "problematic' = (problematic @ [?entry]) @ concat (map (\<lambda>k.
             case ?P rest k (ws ! k)
             of Inl e \<Rightarrow> [os_path_join root (snd (rest ! k)) @ '': '' @ exception_text w e]
              | Inr w1 \<Rightarrow> []) [0 ..< length rest])"
      and F: "written w' = written w @ concat (map (\<lambda>k.
             case ?P rest k (ws ! k) of Inl e \<Rightarrow> [] | Inr w1 \<Rightarrow> [last (written w1)]) [0 ..< length rest])"
      by blast
    let ?ws = "w # ws"
    have 1: "length ?ws = Suc (length (item # rest))" using A by simp
    have 2: "?ws ! 0 = w" by simp
    have 3: "?ws ! length (item # rest) = w'" using C by simp
    have 4: "\<forall>k < length (item # rest). ?ws ! Suc k =
               (case ?P (item # rest) k (?ws ! k) of Inl e \<Rightarrow> ?ws ! k | Inr w1 \<Rightarrow> w1)"
    proof (intro allI impI)
      fix k assume k: "k < length (item # rest)"
      show "?ws ! Suc k = (case ?P (item # rest) k (?ws ! k) of Inl e \<Rightarrow> ?ws ! k | Inr w1 \<Rightarrow> w1)"
      proof (cases k)
        case 0
        show ?thesis unfolding 0 P0 using Inl B by simp
      next
        case (Suc j)
        with k have "j < length rest" by simp
        with D have "ws ! Suc j = (case ?P rest j (ws ! j) of Inl e \<Rightarrow> ws ! j | Inr w1 \<Rightarrow> w1)" by blast
        then show ?thesis unfolding Suc PS by (simp split: sum.splits)
      qed
    qed
    have 5: "problematic' = problematic @ concat (map (\<lambda>k.
             case ?P (item # rest) k (?ws ! k)
             of Inl e \<Rightarrow> [os_path_join root (snd ((item # rest) ! k)) @ '': '' @ exception_text w e]
              | Inr w1 \<Rightarrow> []) [0 ..< length (item # rest)])"
      unfolding E length_Cons upt_shift P0 PS using Inl by (simp add: item cong: sum.case_cong)
    have 6: "written w' = written w @ concat (map (\<lambda>k.
             case ?P (item # rest) k (?ws ! k) of Inl e \<Rightarrow> [] | Inr w1 \<Rightarrow> [last (written w1)])
               [0 ..< length (item # rest)])"
      unfolding F length_Cons upt_shift P0 PS using Inl by simp
    from 1 2 3 4 5 6 show ?thesis by (intro exI[of _ ?ws] conjI)
  next
    case (Inr w1)
    from Cons.prems have
      "for_each_file root path date_time names rest problematic w1 = (problematic', w')"
      unfolding item for_each_file_Cons_Inr[OF Inr] .
    from Cons.IH[OF this] obtain ws where
      A: "length ws = Suc (length rest)" and B: "ws ! 0 = w1" and C: "ws ! length rest = w'"
      and D: "\<forall>k < length rest. ws ! Suc k = (case ?P rest k (ws ! k) of Inl e \<Rightarrow> ws ! k | Inr w1 \<Rightarrow> w1)"
      and E: "problematic' = problematic @ concat (map (\<lambda>k.
             case ?P rest k (ws ! k)
             of Inl e \<Rightarrow> [os_path_join root (snd (rest ! k)) @ '': '' @ exception_text w1 e]
              | Inr w1 \<Rightarrow> []) [0 ..< length rest])"
      and F: "written w' = written w1 @ concat (map (\<lambda>k.
             case ?P rest k (ws ! k) of Inl e \<Rightarrow> [] | Inr w1 \<Rightarrow> [last (written w1)]) [0 ..< length rest])"
      by blast
    from process_file_Inr_world[OF Inr] obtain out where
      o: "written w1 = written w @ [out]" and t: "exception_text w1 = exception_text w"
      by blast
    let ?ws = "w # ws"
    have 1: "length ?ws = Suc (length (item # rest))" using A by simp
    have 2: "?ws ! 0 = w" by simp
    have 3: "?ws ! length (item # rest) = w'" using C by simp
    have 4: "\<forall>k < length (item # rest). ?ws ! Suc k =
               (case ?P (item # rest) k (?ws ! k) of Inl e \<Rightarrow> ?ws ! k | Inr w1 \<Rightarrow> w1)"
    proof (intro allI impI)
      fix k assume k: "k < length (item # rest)"
      show "?ws ! Suc k = (case ?P (item # rest) k (?ws ! k) of Inl e \<Rightarrow> ?ws ! k | Inr w1 \<Rightarrow> w1)"
      proof (cases k)
        case 0
        show ?thesis unfolding 0 P0 using Inr B by simp
      next
        case (Suc j)
        with k have "j < length rest" by simp
        with D have "ws ! Suc j = (case ?P rest j (ws ! j) of Inl e \<Rightarrow> ws ! j | Inr w1 \<Rightarrow> w1)" by blast
        then show ?thesis unfolding Suc PS by (simp split: sum.splits)
      qed
    qed
    have 5: "problematic' = problematic @ concat (map (\<lambda>k.
             case ?P (item # rest) k (?ws ! k)
             of Inl e \<Rightarrow> [os_path_join root (snd ((item # rest) ! k)) @ '': '' @ exception_text w e]
              | Inr w1 \<Rightarrow> []) [0 ..< length (item # rest)])"
      unfolding E length_Cons upt_shift P0 PS t using Inr by (simp cong: sum.case_cong)
    have 6: "written w' = written w @ concat (map (\<lambda>k.
             case ?P (item # rest) k (?ws ! k) of Inl e \<Rightarrow> [] | Inr w1 \<Rightarrow> [last (written w1)])
               [0 ..< length (item # rest)])"
      unfolding F length_Cons upt_shift P0 PS using Inr o by simp
    from 1 2 3 4 5 6 show ?thesis by (intro exI[of _ ?ws] conjI)
  qed
qed


lemma for_each_file_all_written_sub:
  "for_each_file root path date_time names items problematic w = (problematic, w')
   \<Longrightarrow> py_re_sub w = sub
   \<Longrightarrow> \<exists>outs. written w' = written w @ outs
      \<and> list_all2 (\<lambda>item out. \<exists>m s a dt base save_to. date_time = Some dt
            \<and> extract_id_sex_age (os_path_join root (snd item)) = Inr (m, s, a)
            \<and> sub path ''Anonymised'' (re_sub_DICOM (os_path_join root (snd item))) = Inr base
            \<and> sub m (dt @ m @ ''M'') base = Inr save_to
            \<and> out = os_path_join save_to (''EXP'' @ names ! fst item @ ''.dcm'')) items outs"
proof (induction items arbitrary: w)
  case Nil
  then show ?case by simp
next
  case (Cons item rest)
  obtain idx filename where item: "item = (idx, filename)" by (cases item)
  let ?Q = "\<lambda>item out. \<exists>m s a dt base save_to. date_time = Some dt
            \<and> extract_id_sex_age (os_path_join root (snd item)) = Inr (m, s, a)
            \<and> sub path ''Anonymised'' (re_sub_DICOM (os_path_join root (snd item))) = Inr base
            \<and> sub m (dt @ m @ ''M'') base = Inr save_to
            \<and> out = os_path_join save_to (''EXP'' @ names ! fst item @ ''.dcm'')"
  show ?case
  proof (cases "process_file root path date_time names idx filename w")
    case (Inl e)
    from Cons.prems(1) have
      "for_each_file root path date_time names rest
         (problematic @ [os_path_join root filename @ '': '' @ exception_text w e]) w = (problematic, w')"
      unfolding item for_each_file_Cons_Inl[OF Inl] .
    from for_each_file_problematic_grows[OF this]
    show ?thesis by simp
  next
    case (Inr w1)
    from Cons.prems(1) have r:
      "for_each_file root path date_time names rest problematic w1 = (problematic, w')"
      unfolding item for_each_file_Cons_Inr[OF Inr] .
    from Inr have q: "?Q item (last (written w1)) \<and> written w1 = written w @ [last (written w1)]
        \<and> py_re_sub w1 = sub"
    proof (cases rule: process_file_InrE)
      case (1 x mater_id sex age dt anonym_x base save_to out)
      have l: "last (written w1) = out" unfolding 1(8) by simp
      have "?Q item out"
        unfolding item fst_conv snd_conv
        using 1(2,3,5,6,7) Cons.prems(2) by blast
      moreover have "py_re_sub w1 = sub" using py_re_sub_env[OF 1(15)] Cons.prems(2) by simp
      ultimately show ?thesis unfolding l using 1(8) by simp
    qed
    then have s1: "py_re_sub w1 = sub" by simp
    from Cons.IH[OF r s1] obtain outs where
      o: "written w' = written w1 @ outs" "list_all2 ?Q rest outs"
      by blast
    let ?out = "last (written w1)"
    have "written w' = written w @ (?out # outs)" using o(1) q by simp
    moreover have "list_all2 ?Q (item # rest) (?out # outs)"
      unfolding list_all2_Cons using o(2) q by blast
    ultimately show ?thesis by blast
  qed
qed

lemma for_each_file_all_written:
  assumes "for_each_file root path date_time names items problematic w = (problematic, w')"
  shows "\<exists>outs. written w' = written w @ outs
      \<and> list_all2 (\<lambda>item out. \<exists>m s a dt base save_to. date_time = Some dt
            \<and> extract_id_sex_age (os_path_join root (snd item)) = Inr (m, s, a)
            \<and> py_re_sub w path ''Anonymised'' (re_sub_DICOM (os_path_join root (snd item))) = Inr base
            \<and> py_re_sub w m (dt @ m @ ''M'') base = Inr save_to
            \<and> out = os_path_join save_to (''EXP'' @ names ! fst item @ ''.dcm'')) items outs"
  by (rule for_each_file_all_written_sub[OF assms refl])

subsection \<open>The Session Processor and the Batch Driver\<close>

lemma process_folder_empty:
  "process_folder clock w (root, [], path, cat, last_directory, last_date_time) = Some (([], [root]), w)"
  by (simp add: process_folder_def)

lemma process_folder_nonempty:
  assumes "files \<noteq> []"
  shows "process_folder clock w (root, files, path, cat, last_directory, last_date_time) =
     (case (if new_patient root cat last_directory
            then map_option Some (fresh_token clock last_date_time) else Some None) of
        None \<Rightarrow> None
      | Some date_time \<Rightarrow>
          Some ((fst (for_each_file root path date_time (map (fmt_0d 4) [0 ..< length files])
                       (enumerate 0 (sort files)) [] w), []),
                snd (for_each_file root path date_time (map (fmt_0d 4) [0 ..< length files])
                       (enumerate 0 (sort files)) [] w)))"
  using assms by (simp add: process_folder_def Let_def case_prod_beta split: option.splits)

lemma process_folder_SomeE:
  assumes "files \<noteq> []"
    and "process_folder clock w (root, files, path, cat, last_directory, last_date_time)
           = Some ((problematic, empty_dir), w')"
  obtains date_time where
    "(if new_patient root cat last_directory
      then map_option Some (fresh_token clock last_date_time) else Some None) = Some date_time"
    "for_each_file root path date_time (map (fmt_0d 4) [0 ..< length files])
       (enumerate 0 (sort files)) [] w = (problematic, w')"
    "empty_dir = []"
proof -
  let ?d = "if new_patient root cat last_directory
            then map_option Some (fresh_token clock last_date_time) else Some None"
  from assms(2) obtain date_time where d: "?d = Some date_time"
    unfolding process_folder_nonempty[OF assms(1)] by (cases ?d) simp_all
  from assms(2) have
    "fst (for_each_file root path date_time (map (fmt_0d 4) [0 ..< length files])
            (enumerate 0 (sort files)) [] w) = problematic"
    "snd (for_each_file root path date_time (map (fmt_0d 4) [0 ..< length files])
            (enumerate 0 (sort files)) [] w) = w'"
    "empty_dir = []"
    unfolding process_folder_nonempty[OF assms(1)] d by simp_all
  then have "for_each_file root path date_time (map (fmt_0d 4) [0 ..< length files])
       (enumerate 0 (sort files)) [] w = (problematic, w')" "empty_dir = []"
    by (simp_all add: prod_eq_iff)
  with d show ?thesis by (rule that)
qed

lemma snd_enumerate_sort: "snd ` set (enumerate 0 (sort files)) = set files"
proof -
  have "snd ` set (enumerate 0 (sort files)) = set (map snd (enumerate 0 (sort files)))"
    by (simp only: set_map)
  also have "\<dots> = set (sort files)" by (simp only: map_snd_enumerate)
  finally show ?thesis by simp
qed

lemma for_each_file_unbound:
  "for_each_file root path None names items problematic w = (problematic', w')
   \<Longrightarrow> w' = w \<and> length problematic' = length problematic + length items"
proof (induction items arbitrary: problematic)
  case Nil
  then show ?case by simp
next
  case (Cons item rest)
  obtain idx filename where item: "item = (idx, filename)" by (cases item)
  obtain e where e: "process_file root path None names idx filename w = Inl e"
    using process_file_unbound[of root path names idx filename w]
    by (cases "process_file root path None names idx filename w") auto
  from Cons.prems have
    "for_each_file root path None names rest
       (problematic @ [os_path_join root filename @ '': '' @ exception_text w e]) w = (problematic', w')"
    unfolding item for_each_file_Cons_Inl[OF e] .
  from Cons.IH[OF this] show ?case by simp
qed

lemma process_folder_not_new:
  assumes "files \<noteq> []" and "\<not> new_patient root cat last_directory"
  shows "\<exists>problematic. process_folder clock w (root, files, path, cat, last_directory, last_date_time)
           = Some ((problematic, []), w) \<and> length problematic = length files"
proof -
  obtain problematic w' where f:
    "for_each_file root path None (map (fmt_0d 4) [0 ..< length files])
       (enumerate 0 (sort files)) [] w = (problematic, w')"
    by (cases "for_each_file root path None (map (fmt_0d 4) [0 ..< length files])
       (enumerate 0 (sort files)) [] w")
  from for_each_file_unbound[OF f] have "w' = w" "length problematic = length files" by simp_all
  with f assms(2) have
    "process_folder clock w (root, files, path, cat, last_directory, last_date_time)
           = Some ((problematic, []), w) \<and> length problematic = length files"
    unfolding process_folder_nonempty[OF assms(1)] by simp
  then show ?thesis by (rule exI)
qed

lemma re_sub_nonempty: "s \<noteq> [] \<Longrightarrow> rep \<noteq> [] \<Longrightarrow> re_sub pat rep s \<noteq> []"
  by (cases s) simp_all

lemma is_substring_nonempty: "is_substring sub s \<Longrightarrow> sub \<noteq> [] \<Longrightarrow> s \<noteq> []"
  by (cases s) simp_all


text \<open>
  Claim C7. With an empty file list \<^verbatim>\<open>process_folder\<close> returns at once: the failure
  list is empty, the empty-directory list holds the session directory, and the world is
  unchanged (no file was read or written, no clock was read). In every invocation that
  returns, one of the two lists is empty.
\<close>

theorem process_folder_empty_session:
  "process_folder clock w (root, [], path, cat, last_directory, last_date_time) = Some (([], [root]), w)
   \<and> (process_folder clock w (root, files, path, cat, last_directory, last_date_time)
         = Some ((problematic, empty_dir), w')
       \<longrightarrow> problematic = [] \<or> empty_dir = [])"
proof (intro conjI impI)
  show "process_folder clock w (root, [], path, cat, last_directory, last_date_time) = Some (([], [root]), w)"
    by (rule process_folder_empty)
next
  assume r: "process_folder clock w (root, files, path, cat, last_directory, last_date_time)
         = Some ((problematic, empty_dir), w')"
  show "problematic = [] \<or> empty_dir = []"
  proof (cases "files = []")
    case True
    with r show ?thesis by (simp add: process_folder_empty)
  next
    case False
    from False r have "empty_dir = []" by (rule process_folder_SomeE)
    then show ?thesis by simp
  qed
qed


lemma process_file_load_error:
  "dcmread v (os_path_join root f) = Inl e \<Longrightarrow> process_file root path d ns k f v = Inl e"
  by (simp add: process_file_def)

lemma process_file_extraction_mismatch:
  "dcmread v (os_path_join root f) = Inr x \<Longrightarrow> extract_id_sex_age (os_path_join root f) = Inl e
   \<Longrightarrow> process_file root path d ns k f v = Inl e"
  by (simp add: process_file_def)

lemma process_file_anonymise_error:
  "dcmread v (os_path_join root f) = Inr x
   \<Longrightarrow> extract_id_sex_age (os_path_join root f) = Inr (m, s, a)
   \<Longrightarrow> anonymise x s a (t @ m @ ''M'') = Inl e
   \<Longrightarrow> process_file root path (Some t) ns k f v = Inl e"
  by (simp add: process_file_def)

lemma process_file_write_error:
  "dcmread v (os_path_join root f) = Inr x
   \<Longrightarrow> extract_id_sex_age (os_path_join root f) = Inr (m, s, a)
   \<Longrightarrow> anonymise x s a (t @ m @ ''M'') = Inr y
   \<Longrightarrow> py_re_sub v path ''Anonymised'' (re_sub_DICOM (os_path_join root f)) = Inr base
   \<Longrightarrow> py_re_sub v m (t @ m @ ''M'') base = Inr dir
   \<Longrightarrow> process_file root path (Some t) ns k f v =
         (if makedirs_fails v dir then Inl (OSError dir)
          else if k < length ns
               then (if save_fails v (os_path_join dir (''EXP'' @ ns ! k @ ''.dcm''))
                     then Inl (OSError (os_path_join dir (''EXP'' @ ns ! k @ ''.dcm'')))
                     else Inr (v\<lparr>fs := (fs v)(os_path_join dir (''EXP'' @ ns ! k @ ''.dcm'') \<mapsto> Dicom y),
                                written := written v @ [os_path_join dir (''EXP'' @ ns ! k @ ''.dcm'')]\<rparr>))
               else Inl IndexError)"
  by (simp add: process_file_def makedirs_def save_as_def)

lemma process_folder_trace:
  assumes "files \<noteq> []"
    and "process_folder clock w (root, files, path, cat, last_directory, last_date_time)
           = Some ((problematic, empty_dir), w')"
  shows "\<exists>date_time ws.
            date_time = (if new_patient root cat last_directory
                         then fresh_token clock last_date_time else None)
          \<and> length ws = Suc (length files) \<and> ws ! 0 = w \<and> ws ! length files = w'
          \<and> (\<forall>i < length files.
                ws ! Suc i =
                  (case process_file root path date_time (map (fmt_0d 4) [0 ..< length files])
                          i (sort files ! i) (ws ! i)
                   of Inl e \<Rightarrow> ws ! i | Inr w1 \<Rightarrow> w1))
          \<and> problematic = concat (map (\<lambda>i.
                case process_file root path date_time (map (fmt_0d 4) [0 ..< length files])
                       i (sort files ! i) (ws ! i)
                of Inl e \<Rightarrow> [os_path_join root (sort files ! i) @ '': '' @ exception_text w e]
                 | Inr w1 \<Rightarrow> []) [0 ..< length files])
          \<and> written w' = written w @ concat (map (\<lambda>i.
                case process_file root path date_time (map (fmt_0d 4) [0 ..< length files])
                       i (sort files ! i) (ws ! i)
                of Inl e \<Rightarrow> [] | Inr w1 \<Rightarrow> [last (written w1)]) [0 ..< length files])"
proof -
  let ?names = "map (fmt_0d 4) [0 ..< length files]"
  let ?items = "enumerate 0 (sort files)"
  from assms obtain date_time where
    d: "(if new_patient root cat last_directory
         then map_option Some (fresh_token clock last_date_time) else Some None) = Some date_time"
    and f: "for_each_file root path date_time ?names ?items [] w = (problematic, w')"
    by (rule process_folder_SomeE)
  from d have dt: "date_time = (if new_patient root cat last_directory
                         then fresh_token clock last_date_time else None)"
    by (auto split: if_splits)
  have len: "length ?items = length files" by simp
  have it: "fst (?items ! i) = i \<and> snd (?items ! i) = sort files ! i" if "i < length files" for i
    using that by (simp add: nth_enumerate_eq)
  from for_each_file_trace[OF f] obtain ws where
    A: "length ws = Suc (length ?items)" and B: "ws ! 0 = w" and C: "ws ! length ?items = w'"
    and D: "\<forall>k < length ?items. ws ! Suc k =
               (case process_file root path date_time ?names (fst (?items ! k)) (snd (?items ! k)) (ws ! k)
                of Inl e \<Rightarrow> ws ! k | Inr w1 \<Rightarrow> w1)"
    and E: "problematic = [] @ concat (map (\<lambda>k.
             case process_file root path date_time ?names (fst (?items ! k)) (snd (?items ! k)) (ws ! k)
             of Inl e \<Rightarrow> [os_path_join root (snd (?items ! k)) @ '': '' @ exception_text w e]
              | Inr w1 \<Rightarrow> []) [0 ..< length ?items])"
    and F: "written w' = written w @ concat (map (\<lambda>k.
             case process_file root path date_time ?names (fst (?items ! k)) (snd (?items ! k)) (ws ! k)
             of Inl e \<Rightarrow> [] | Inr w1 \<Rightarrow> [last (written w1)]) [0 ..< length ?items])"
    by blast
  have 1: "length ws = Suc (length files)" using A by simp
  have 3: "ws ! length files = w'" using C by simp
  have 4: "\<forall>i < length files. ws ! Suc i =
                  (case process_file root path date_time ?names i (sort files ! i) (ws ! i)
                   of Inl e \<Rightarrow> ws ! i | Inr w1 \<Rightarrow> w1)"
  proof (intro allI impI)
    fix i assume i: "i < length files"
    then have "i < length ?items" by simp
    with D have "ws ! Suc i =
               (case process_file root path date_time ?names (fst (?items ! i)) (snd (?items ! i)) (ws ! i)
                of Inl e \<Rightarrow> ws ! i | Inr w1 \<Rightarrow> w1)" by blast
    then show "ws ! Suc i =
                  (case process_file root path date_time ?names i (sort files ! i) (ws ! i)
                   of Inl e \<Rightarrow> ws ! i | Inr w1 \<Rightarrow> w1)"
      using it[OF i] by simp
  qed
  have 5: "problematic = concat (map (\<lambda>i.
                case process_file root path date_time ?names i (sort files ! i) (ws ! i)
                of Inl e \<Rightarrow> [os_path_join root (sort files ! i) @ '': '' @ exception_text w e]
                 | Inr w1 \<Rightarrow> []) [0 ..< length files])"
    unfolding E len append_Nil
    by (rule arg_cong[where f = concat], rule map_cong[OF refl]) (simp add: it cong: sum.case_cong)
  have 6: "written w' = written w @ concat (map (\<lambda>i.
                case process_file root path date_time ?names i (sort files ! i) (ws ! i)
                of Inl e \<Rightarrow> [] | Inr w1 \<Rightarrow> [last (written w1)]) [0 ..< length files])"
    unfolding F len
    by (rule arg_cong[where f = "\<lambda>x. written w @ concat x"], rule map_cong[OF refl]) (simp add: it)
  from dt 1 B 3 4 5 6 show ?thesis by (intro exI[of _ date_time] exI[of _ ws] conjI)
qed


text \<open>
  Claim C3. For a session with files, \<^verbatim>\<open>process_folder\<close> returns whenever the clock
  eventually shows a token other than the previous one, whatever happens to single
  files. When it returns, the files have been processed one after the other in sorted
  order, each by the body of the \<^verbatim>\<open>try\<close> block in the world that the files before it
  have left (\<open>ws ! i\<close> is the world before file \<open>i\<close>): a file whose processing
  fails leaves the world as it was and contributes the entry made of its path, a colon,
  a space and the text of the error that occurred; a file whose processing succeeds
  contributes the file it writes and no entry; and the file after it is processed in
  either case. So the failure list holds exactly the entries of the failing files, in
  order, the written files are exactly those of the others, and the two numbers add up
  to the number of files. The last five conjuncts say when the processing of one file
  fails and with which error: a load error, an extraction mismatch, an error of
  \<^verbatim>\<open>anonymise\<close>, a dataset root that is not a valid pattern, and a directory or a
  file that cannot be written.
\<close>

theorem process_folder_isolates_failures:
  assumes "files \<noteq> []"
  shows "((\<exists>j. now_token (clock j) \<noteq> last_date_time)
          \<longrightarrow> (\<exists>r. process_folder clock w (root, files, path, cat, last_directory, last_date_time) = Some r))
       \<and> (process_folder clock w (root, files, path, cat, last_directory, last_date_time)
            = Some ((problematic, empty_dir), w')
          \<longrightarrow> empty_dir = []
            \<and> (\<exists>date_time ws.
                  date_time = (if new_patient root cat last_directory
                               then fresh_token clock last_date_time else None)
                \<and> length ws = Suc (length files) \<and> ws ! 0 = w \<and> ws ! length files = w'
                \<and> (\<forall>i < length files.
                      ws ! Suc i =
                        (case process_file root path date_time (map (fmt_0d 4) [0 ..< length files])
                                i (sort files ! i) (ws ! i)
                         of Inl e \<Rightarrow> ws ! i | Inr w1 \<Rightarrow> w1))
                \<and> problematic = concat (map (\<lambda>i.
                      case process_file root path date_time (map (fmt_0d 4) [0 ..< length files])
                             i (sort files ! i) (ws ! i)
                      of Inl e \<Rightarrow> [os_path_join root (sort files ! i) @ '': '' @ exception_text w e]
                       | Inr w1 \<Rightarrow> []) [0 ..< length files])
                \<and> written w' = written w @ concat (map (\<lambda>i.
                      case process_file root path date_time (map (fmt_0d 4) [0 ..< length files])
                             i (sort files ! i) (ws ! i)
                      of Inl e \<Rightarrow> [] | Inr w1 \<Rightarrow> [last (written w1)]) [0 ..< length files]))
            \<and> (\<exists>outs. written w' = written w @ outs \<and> length problematic + length outs = length files))
       \<and> (dcmread v (os_path_join root f) = Inl e
            \<longrightarrow> process_file root path d ns k f v = Inl e)
       \<and> (dcmread v (os_path_join root f) = Inr x
            \<and> extract_id_sex_age (os_path_join root f) = Inl e
            \<longrightarrow> process_file root path d ns k f v = Inl e)
       \<and> (dcmread v (os_path_join root f) = Inr x
            \<and> extract_id_sex_age (os_path_join root f) = Inr (m, s, a)
            \<and> anonymise x s a (t @ m @ ''M'') = Inl e
            \<longrightarrow> process_file root path (Some t) ns k f v = Inl e)
       \<and> (dcmread v (os_path_join root f) = Inr x
            \<and> extract_id_sex_age (os_path_join root f) = Inr (m, s, a)
            \<and> anonymise x s a (t @ m @ ''M'') = Inr y
            \<and> py_re_sub v path ''Anonymised'' (re_sub_DICOM (os_path_join root f)) = Inl e
            \<longrightarrow> process_file root path (Some t) ns k f v = Inl e)
       \<and> (dcmread v (os_path_join root f) = Inr x
            \<and> extract_id_sex_age (os_path_join root f) = Inr (m, s, a)
            \<and> anonymise x s a (t @ m @ ''M'') = Inr y
            \<and> py_re_sub v path ''Anonymised'' (re_sub_DICOM (os_path_join root f)) = Inr base
            \<and> py_re_sub v m (t @ m @ ''M'') base = Inr dir
            \<longrightarrow> process_file root path (Some t) ns k f v =
               (if makedirs_fails v dir then Inl (OSError dir)
                else if k < length ns
                     then (if save_fails v (os_path_join dir (''EXP'' @ ns ! k @ ''.dcm''))
                           then Inl (OSError (os_path_join dir (''EXP'' @ ns ! k @ ''.dcm'')))
                           else Inr (v\<lparr>fs := (fs v)(os_path_join dir (''EXP'' @ ns ! k @ ''.dcm'') \<mapsto> Dicom y),
                                      written := written v @ [os_path_join dir (''EXP'' @ ns ! k @ ''.dcm'')]\<rparr>))
                     else Inl IndexError))"
proof (intro conjI impI)
  assume "\<exists>j. now_token (clock j) \<noteq> last_date_time"
  then obtain j where "now_token (clock j) \<noteq> last_date_time" by blast
  from fresh_token_terminates[of clock j last_date_time, OF this] obtain t where
    "fresh_token clock last_date_time = Some t"
    by blast
  then show "\<exists>r. process_folder clock w (root, files, path, cat, last_directory, last_date_time) = Some r"
    unfolding process_folder_nonempty[OF assms] by simp
next
  assume r: "process_folder clock w (root, files, path, cat, last_directory, last_date_time)
            = Some ((problematic, empty_dir), w')"
  from assms r obtain date_time where
    f: "for_each_file root path date_time (map (fmt_0d 4) [0 ..< length files])
          (enumerate 0 (sort files)) [] w = (problematic, w')"
    and e: "empty_dir = []"
    by (rule process_folder_SomeE)
  show "empty_dir = []" by (rule e)
  from for_each_file_count[OF f]
  show "\<exists>outs. written w' = written w @ outs \<and> length problematic + length outs = length files"
    by simp
  show "\<exists>date_time ws.
                  date_time = (if new_patient root cat last_directory
                               then fresh_token clock last_date_time else None)
                \<and> length ws = Suc (length files) \<and> ws ! 0 = w \<and> ws ! length files = w'
                \<and> (\<forall>i < length files.
                      ws ! Suc i =
                        (case process_file root path date_time (map (fmt_0d 4) [0 ..< length files])
                                i (sort files ! i) (ws ! i)
                         of Inl e \<Rightarrow> ws ! i | Inr w1 \<Rightarrow> w1))
                \<and> problematic = concat (map (\<lambda>i.
                      case process_file root path date_time (map (fmt_0d 4) [0 ..< length files])
                             i (sort files ! i) (ws ! i)
                      of Inl e \<Rightarrow> [os_path_join root (sort files ! i) @ '': '' @ exception_text w e]
                       | Inr w1 \<Rightarrow> []) [0 ..< length files])
                \<and> written w' = written w @ concat (map (\<lambda>i.
                      case process_file root path date_time (map (fmt_0d 4) [0 ..< length files])
                             i (sort files ! i) (ws ! i)
                      of Inl e \<Rightarrow> [] | Inr w1 \<Rightarrow> [last (written w1)]) [0 ..< length files])"
    by (rule process_folder_trace[OF assms r])
next
  assume "dcmread v (os_path_join root f) = Inl e"
  then show "process_file root path d ns k f v = Inl e" by (rule process_file_load_error)
next
  assume "dcmread v (os_path_join root f) = Inr x \<and> extract_id_sex_age (os_path_join root f) = Inl e"
  then show "process_file root path d ns k f v = Inl e"
    using process_file_extraction_mismatch by blast
next
  assume "dcmread v (os_path_join root f) = Inr x
            \<and> extract_id_sex_age (os_path_join root f) = Inr (m, s, a)
            \<and> anonymise x s a (t @ m @ ''M'') = Inl e"
  then show "process_file root path (Some t) ns k f v = Inl e"
    using process_file_anonymise_error by blast
next
  assume "dcmread v (os_path_join root f) = Inr x
            \<and> extract_id_sex_age (os_path_join root f) = Inr (m, s, a)
            \<and> anonymise x s a (t @ m @ ''M'') = Inr y
            \<and> py_re_sub v path ''Anonymised'' (re_sub_DICOM (os_path_join root f)) = Inl e"
  then show "process_file root path (Some t) ns k f v = Inl e"
    by (simp add: process_file_def)
next
  assume "dcmread v (os_path_join root f) = Inr x
            \<and> extract_id_sex_age (os_path_join root f) = Inr (m, s, a)
            \<and> anonymise x s a (t @ m @ ''M'') = Inr y
            \<and> py_re_sub v path ''Anonymised'' (re_sub_DICOM (os_path_join root f)) = Inr base
            \<and> py_re_sub v m (t @ m @ ''M'') base = Inr dir"
  then show "process_file root path (Some t) ns k f v =
               (if makedirs_fails v dir then Inl (OSError dir)
                else if k < length ns
                     then (if save_fails v (os_path_join dir (''EXP'' @ ns ! k @ ''.dcm''))
                           then Inl (OSError (os_path_join dir (''EXP'' @ ns ! k @ ''.dcm'')))
                           else Inr (v\<lparr>fs := (fs v)(os_path_join dir (''EXP'' @ ns ! k @ ''.dcm'') \<mapsto> Dicom y),
                                      written := written v @ [os_path_join dir (''EXP'' @ ns ! k @ ''.dcm'')]\<rparr>))
                     else Inl IndexError)"
    using process_file_write_error by blast
qed

lemma sort_mset_eq: "mset xs = mset ys \<Longrightarrow> sort xs = sort (ys :: string list)"
  by (rule properties_for_sort) simp_all

lemma py_re_sub_token:
  assumes "extract_id_sex_age p = Inr (m, s, a)" and "\<forall>c \<in> set dt. is_digit c"
  shows "py_re_sub w m (dt @ m @ ''M'') base = Inr (re_sub m (dt @ m @ ''M'') base)"
proof -
  from extract_Inr[OF assms(1)] have d: "\<forall>x \<in> set m. is_digit x" by simp
  have "CHR 0x5C \<notin> set (dt @ m @ ''M'')"
    using digits_no_backslash[OF d] digits_no_backslash[OF assms(2)] by simp
  with digits_not_special[OF d] show ?thesis by (rule py_re_sub_plain)
qed


text \<open>
  Claim C6, as the code has it. When no file of a session with \<open>N > 0\<close> files fails,
  exactly \<open>N\<close> files are written, to \<open>N\<close> different paths, and the file at position
  \<open>i\<close> of the sorted file list is written under the name \<^verbatim>\<open>EXP\<close>, the index \<open>i\<close>
  in decimal padded with zeros to at least four digits (exactly four digits for
  \<open>i < 10000\<close>), \<^verbatim>\<open>.dcm\<close>. Its directory is the path of the file up to
  \<^verbatim>\<open>DICOM\<close>, with the dataset root rewritten as \<^verbatim>\<open>re.sub\<close> does it (\<open>base\<close>) and
  then every occurrence of the session token replaced by the patient identifier. The
  result does not depend on the order in which the files are listed.
\<close>

theorem process_folder_names_outputs_by_sorted_index:
  assumes "files \<noteq> []"
  shows "(process_folder clock w (root, files, path, cat, last_directory, last_date_time)
            = Some (([], empty_dir), w')
          \<longrightarrow> (\<exists>outs dt. fresh_token clock last_date_time = Some dt
                \<and> written w' = written w @ outs \<and> length outs = length files \<and> distinct outs
                \<and> (\<forall>i < length files. \<exists>m s a base.
                      extract_id_sex_age (os_path_join root (sort files ! i)) = Inr (m, s, a)
                    \<and> py_re_sub w path ''Anonymised''
                         (re_sub_DICOM (os_path_join root (sort files ! i))) = Inr base
                    \<and> outs ! i = os_path_join (re_sub m (dt @ m @ ''M'') base)
                                   (''EXP'' @ fmt_0d 4 i @ ''.dcm'')
                    \<and> (i < 10000 \<longrightarrow> length (fmt_0d 4 i) = 4))))
       \<and> (mset files' = mset files
          \<longrightarrow> process_folder clock w (root, files', path, cat, last_directory, last_date_time)
              = process_folder clock w (root, files, path, cat, last_directory, last_date_time))"
proof (intro conjI impI)
  assume m: "mset files' = mset files"
  then have s: "sort files' = sort files" by (rule sort_mset_eq)
  from m have l: "length files' = length files" by (rule mset_eq_length)
  from l assms have n: "files' \<noteq> []" by auto
  show "process_folder clock w (root, files', path, cat, last_directory, last_date_time)
              = process_folder clock w (root, files, path, cat, last_directory, last_date_time)"
    unfolding process_folder_nonempty[OF assms] process_folder_nonempty[OF n] s l by (rule refl)
next
  let ?names = "map (fmt_0d 4) [0 ..< length files]"
  let ?items = "enumerate 0 (sort files)"
  assume r: "process_folder clock w (root, files, path, cat, last_directory, last_date_time)
            = Some (([], empty_dir), w')"
  from assms r obtain date_time where
    d: "(if new_patient root cat last_directory
         then map_option Some (fresh_token clock last_date_time) else Some None) = Some date_time"
    and f: "for_each_file root path date_time ?names ?items [] w = ([], w')"
    by (rule process_folder_SomeE)
  let ?Q = "\<lambda>item out. \<exists>m s a dt base save_to. date_time = Some dt
            \<and> extract_id_sex_age (os_path_join root (snd item)) = Inr (m, s, a)
            \<and> py_re_sub w path ''Anonymised'' (re_sub_DICOM (os_path_join root (snd item))) = Inr base
            \<and> py_re_sub w m (dt @ m @ ''M'') base = Inr save_to
            \<and> out = os_path_join save_to (''EXP'' @ ?names ! fst item @ ''.dcm'')"
  from for_each_file_all_written[OF f] obtain outs where
    o: "written w' = written w @ outs"
    and l: "list_all2 ?Q ?items outs"
    by blast
  from l have len: "length outs = length files" by (simp add: list_all2_lengthD[symmetric])
  have nth: "\<exists>m s a dt base save_to. date_time = Some dt
            \<and> extract_id_sex_age (os_path_join root (sort files ! i)) = Inr (m, s, a)
            \<and> py_re_sub w path ''Anonymised'' (re_sub_DICOM (os_path_join root (sort files ! i))) = Inr base
            \<and> py_re_sub w m (dt @ m @ ''M'') base = Inr save_to
            \<and> outs ! i = os_path_join save_to (''EXP'' @ fmt_0d 4 i @ ''.dcm'')"
    if "i < length files" for i
  proof -
    from that have i: "i < length ?items" by simp
    from that have "?items ! i = (i, sort files ! i)" by (simp add: nth_enumerate_eq)
    moreover from that have "?names ! i = fmt_0d 4 i" by simp
    ultimately show ?thesis using list_all2_nthD[OF l i] by simp
  qed
  from assms have "0 < length files" by simp
  from nth[OF this] obtain dt where dt: "date_time = Some dt" by blast
  with d have ft: "fresh_token clock last_date_time = Some dt"
    by (auto split: if_splits)
  have dd: "\<forall>c \<in> set dt. is_digit c" by (rule fresh_token_digits[OF ft])
  have dist: "distinct outs"
    unfolding distinct_conv_nth
  proof (intro allI impI)
    fix i j assume "i < length outs" "j < length outs" "i \<noteq> j"
    with len have ij: "i < length files" "j < length files" by simp_all
    from nth[OF ij(1)] obtain a where a: "outs ! i = os_path_join a (''EXP'' @ fmt_0d 4 i @ ''.dcm'')"
      by blast
    from nth[OF ij(2)] obtain b where b: "outs ! j = os_path_join b (''EXP'' @ fmt_0d 4 j @ ''.dcm'')"
      by blast
    show "outs ! i \<noteq> outs ! j"
    proof
      assume "outs ! i = outs ! j"
      with a b have "i = j" by (intro out_path_inj[of a i b j]) simp
      with \<open>i \<noteq> j\<close> show False by simp
    qed
  qed
  have "\<forall>i < length files. \<exists>m s a base.
                      extract_id_sex_age (os_path_join root (sort files ! i)) = Inr (m, s, a)
                    \<and> py_re_sub w path ''Anonymised''
                         (re_sub_DICOM (os_path_join root (sort files ! i))) = Inr base
                    \<and> outs ! i = os_path_join (re_sub m (dt @ m @ ''M'') base)
                                   (''EXP'' @ fmt_0d 4 i @ ''.dcm'')
                    \<and> (i < 10000 \<longrightarrow> length (fmt_0d 4 i) = 4)"
  proof (intro allI impI)
    fix i assume "i < length files"
    from nth[OF this] dt obtain m s a base save_to where
      e: "extract_id_sex_age (os_path_join root (sort files ! i)) = Inr (m, s, a)"
      and b: "py_re_sub w path ''Anonymised'' (re_sub_DICOM (os_path_join root (sort files ! i))) = Inr base"
      and t: "py_re_sub w m (dt @ m @ ''M'') base = Inr save_to"
      and u: "outs ! i = os_path_join save_to (''EXP'' @ fmt_0d 4 i @ ''.dcm'')"
      by auto
    from t have "save_to = re_sub m (dt @ m @ ''M'') base"
      unfolding py_re_sub_token[OF e dd] by simp
    with e b u length_fmt_0d_4[of i]
    show "\<exists>m s a base.
                      extract_id_sex_age (os_path_join root (sort files ! i)) = Inr (m, s, a)
                    \<and> py_re_sub w path ''Anonymised''
                         (re_sub_DICOM (os_path_join root (sort files ! i))) = Inr base
                    \<and> outs ! i = os_path_join (re_sub m (dt @ m @ ''M'') base)
                                   (''EXP'' @ fmt_0d 4 i @ ''.dcm'')
                    \<and> (i < 10000 \<longrightarrow> length (fmt_0d 4 i) = 4)"
      by blast
  qed
  with ft o len dist
  show "\<exists>outs dt. fresh_token clock last_date_time = Some dt
                \<and> written w' = written w @ outs \<and> length outs = length files \<and> distinct outs
                \<and> (\<forall>i < length files. \<exists>m s a base.
                      extract_id_sex_age (os_path_join root (sort files ! i)) = Inr (m, s, a)
                    \<and> py_re_sub w path ''Anonymised''
                         (re_sub_DICOM (os_path_join root (sort files ! i))) = Inr base
                    \<and> outs ! i = os_path_join (re_sub m (dt @ m @ ''M'') base)
                                   (''EXP'' @ fmt_0d 4 i @ ''.dcm'')
                    \<and> (i < 10000 \<longrightarrow> length (fmt_0d 4 i) = 4))"
    by (intro exI[of _ outs] exI[of _ dt] conjI)
qed


text \<open>
  Claim C9. Every work item that \<^verbatim>\<open>main\<close> builds has an empty previous directory
  and an empty previous token. Its session is classified as new, the token is the
  first reading of the clock by that invocation, and the files are processed with that
  token: the branch that would reuse a token is not taken.
\<close>

theorem main_work_items_are_new_sessions:
  "\<forall>item \<in> set (all_roots walk path). \<exists>root files.
       item = (root, files, path, (''T2_AX'', ''T2_SAG''), [], [])
     \<and> is_substring ''EXP00000'' root
     \<and> new_patient root (''T2_AX'', ''T2_SAG'') []
     \<and> fresh_token clock [] = Some (now_token (clock 0))
     \<and> (files \<noteq> [] \<longrightarrow>
          process_folder clock w item =
            Some ((fst (for_each_file root path (Some (now_token (clock 0)))
                         (map (fmt_0d 4) [0 ..< length files]) (enumerate 0 (sort files)) [] w), []),
                  snd (for_each_file root path (Some (now_token (clock 0)))
                         (map (fmt_0d 4) [0 ..< length files]) (enumerate 0 (sort files)) [] w)))"
proof
  fix item assume "item \<in> set (all_roots walk path)"
  then obtain root dirs files where
    i: "item = (root, files, path, (''T2_AX'', ''T2_SAG''), [], [])"
    and s: "is_substring ''EXP00000'' root"
    by (auto simp: all_roots_def Let_def)
  from s have ne: "root \<noteq> []" by (rule is_substring_nonempty) simp
  have n: "new_patient root (''T2_AX'', ''T2_SAG'') []"
    using re_sub_nonempty[OF ne, of "''T2_SAG''" "''T2_AX''"]
          re_sub_nonempty[OF ne, of "''T2_AX''" "''T2_SAG''"]
    by (simp add: new_patient_def)
  have t: "fresh_token clock [] = Some (now_token (clock 0))"
    by (rule fresh_token_first) (use now_token_nonempty in blast)
  have "process_folder clock w item =
            Some ((fst (for_each_file root path (Some (now_token (clock 0)))
                         (map (fmt_0d 4) [0 ..< length files]) (enumerate 0 (sort files)) [] w), []),
                  snd (for_each_file root path (Some (now_token (clock 0)))
                         (map (fmt_0d 4) [0 ..< length files]) (enumerate 0 (sort files)) [] w))"
    if "files \<noteq> []"
    unfolding i process_folder_nonempty[OF that] using n t by simp
  with i s n t show "\<exists>root files.
       item = (root, files, path, (''T2_AX'', ''T2_SAG''), [], [])
     \<and> is_substring ''EXP00000'' root
     \<and> new_patient root (''T2_AX'', ''T2_SAG'') []
     \<and> fresh_token clock [] = Some (now_token (clock 0))
     \<and> (files \<noteq> [] \<longrightarrow>
          process_folder clock w item =
            Some ((fst (for_each_file root path (Some (now_token (clock 0)))
                         (map (fmt_0d 4) [0 ..< length files]) (enumerate 0 (sort files)) [] w), []),
                  snd (for_each_file root path (Some (now_token (clock 0)))
                         (map (fmt_0d 4) [0 ..< length files]) (enumerate 0 (sort files)) [] w)))"
    by (intro exI[of _ root] exI[of _ files] conjI impI)
qed








section \<open>The properties on the sample data set\<close>

subsection \<open>One file\<close>

lemma sample_extract:
  "extract_id_sex_age (os_path_join sample_root ''IM0001'') = Inr (''12'', ''F'', ''034'')"
  by code_simp

lemma sample_process_file:
  "\<exists>w'. process_file sample_root ''/Dataset'' (Some ''261103090500'') [''0000''] 0 ''IM0001'' sample_world
         = Inr w'"
proof -
  have "isl (process_file sample_root ''/Dataset'' (Some ''261103090500'') [''0000''] 0 ''IM0001'' sample_world)
          = False"
    by code_simp
  then show ?thesis
    by (cases "process_file sample_root ''/Dataset'' (Some ''261103090500'') [''0000''] 0 ''IM0001'' sample_world")
       simp_all
qed







text \<open>
  Claim C10 as it is worded fails: a dataset root given as the relative path
  \<^verbatim>\<open>12 DICOM 12 F 3\<close> leaves, after the rest of the path from \<^verbatim>\<open>DICOM\<close> is cut
  off, the session token and a space. The output directory is then the identifier
  followed by that space, which is the padded value of the \<^verbatim>\<open>PatientID\<close> field.
\<close>

theorem output_directory_equals_patient_id_counterexample:
  "odd (length (''261103090500'' @ ''12'' @ ''M''))
   \<and> extract_id_sex_age (os_path_join ''12 DICOM 12 F 3/EXP00000'' ''IM0001'') = Inr (''12'', ''F'', ''3'')
   \<and> py_re_sub uniform_world ''12 DICOM 12 F 3'' ''Anonymised''
        (re_sub_DICOM (os_path_join ''12 DICOM 12 F 3/EXP00000'' ''IM0001'')) = Inr ''12 ''
   \<and> py_re_sub uniform_world ''12'' (''261103090500'' @ ''12'' @ ''M'') ''12 '' = Inr ''26110309050012M ''
   \<and> os_path_join ''26110309050012M '' ''EXP0000.dcm'' = ''26110309050012M /EXP0000.dcm''
   \<and> (case process_folder sample_clock uniform_world
              (''12 DICOM 12 F 3/EXP00000'', [''IM0001''], ''12 DICOM 12 F 3'',
               (''T2_AX'', ''T2_SAG''), [], [])
       of None \<Rightarrow> False
        | Some (r, w') \<Rightarrow>
            r = ([], []) \<and> written w' = [''26110309050012M /EXP0000.dcm'']
          \<and> (case fs w' ''26110309050012M /EXP0000.dcm''
              of Some (Dicom d) \<Rightarrow> getitem (elements d) ''PatientID'' = Some (Str ''26110309050012M '')
               | _ \<Rightarrow> False))"
  by code_simp

text \<open>
  Claim C2 on the sample record and on the first file of the sample session.
\<close>

theorem patient_id_even_length_witness:
  "(\<exists>d'. anonymise sample_record ''F'' ''034'' (''261103090500'' @ ''12'' @ ''M'') = Inr d'
        \<and> getitem (elements d') ''PatientID'' = Some (Str ''26110309050012M '')
        \<and> even (length ''26110309050012M ''))
   \<and> (\<exists>w' d'. process_file sample_root ''/Dataset'' (Some ''261103090500'') [''0000''] 0 ''IM0001''
                  sample_world = Inr w'
        \<and> fs w' (last (written w')) = Some (Dicom d')
        \<and> getitem (elements d') ''PatientID'' = Some (Str ''26110309050012M ''))"
proof -
  have "isl (anonymise sample_record ''F'' ''034'' (''261103090500'' @ ''12'' @ ''M'')) = False"
    by code_simp
  then obtain d' where
    a: "anonymise sample_record ''F'' ''034'' (''261103090500'' @ ''12'' @ ''M'') = Inr d'"
    by (cases "anonymise sample_record ''F'' ''034'' (''261103090500'' @ ''12'' @ ''M'')") simp_all
  from sample_process_file obtain w' where
    w': "process_file sample_root ''/Dataset'' (Some ''261103090500'') [''0000''] 0 ''IM0001'' sample_world
           = Inr w'" by blast
  have o: "odd (length (''261103090500'' @ ''12'' @ ''M''))" by code_simp
  note t = patient_id_even_length
    [of sample_record "''F''" "''034''" "''261103090500''" "''12''" d'
        sample_root "''/Dataset''" "[''0000'']" 0 "''IM0001''" sample_world w']
  from t a o have 1: "getitem (elements d') ''PatientID'' = Some (Str ''26110309050012M '')"
    by auto
  from t w' obtain raw sex age d2 where
    r: "extract_id_sex_age (os_path_join sample_root ''IM0001'') = Inr (raw, sex, age)"
       "fs w' (last (written w')) = Some (Dicom d2)"
       "getitem (elements d2) ''PatientID''
          = Some (Str (if even (length (''261103090500'' @ raw @ ''M''))
                 then ''261103090500'' @ raw @ ''M''
                 else (''261103090500'' @ raw @ ''M'') @ '' ''))"
    by blast
  from r(1) have m: "raw = ''12''" unfolding sample_extract by simp
  from r(3) o have 2: "getitem (elements d2) ''PatientID'' = Some (Str ''26110309050012M '')"
    unfolding m by simp
  have 3: "even (length ''26110309050012M '')" by code_simp
  from a 1 3 w' r(2) 2 show ?thesis by blast
qed


subsection \<open>A session with one file that is not a DICOM file\<close>

lemma sample_session_run:
  "map_option (apsnd written) (process_folder sample_clock sample_world
     (sample_root, [''IM0003'', ''IM0001'', ''IM0004'', ''IM0002''], ''/Dataset'',
      (''T2_AX'', ''T2_SAG''), [], []))
   = Some (([sample_root @ ''/IM0002: ''
               @ exception_text sample_world (InvalidDicomError (sample_root @ ''/IM0002''))], []),
           [''Anonymised/26110309050012M F 034/T2_SAG_1/EXP0000.dcm'',
            ''Anonymised/26110309050012M F 034/T2_SAG_1/EXP0002.dcm'',
            ''Anonymised/26110309050012M F 034/T2_SAG_1/EXP0003.dcm''])"
  by code_simp

lemma sample_session_runE:
  obtains w' where
    "process_folder sample_clock sample_world
       (sample_root, [''IM0003'', ''IM0001'', ''IM0004'', ''IM0002''], ''/Dataset'',
        (''T2_AX'', ''T2_SAG''), [], [])
     = Some (([sample_root @ ''/IM0002: ''
                 @ exception_text sample_world (InvalidDicomError (sample_root @ ''/IM0002''))], []), w')"
    "written w' = [''Anonymised/26110309050012M F 034/T2_SAG_1/EXP0000.dcm'',
            ''Anonymised/26110309050012M F 034/T2_SAG_1/EXP0002.dcm'',
            ''Anonymised/26110309050012M F 034/T2_SAG_1/EXP0003.dcm'']"
  using sample_session_run by (auto simp: apsnd_def map_prod_def split: prod.splits)

lemma mixed_session_run:
  "map_option (apsnd written) (process_folder sample_clock mixed_world
     (sample_root, [''IM0005'', ''IM0003'', ''IM0001'', ''IM0004'', ''IM0002''], ''/Dataset'',
      (''T2_AX'', ''T2_SAG''), [], []))
   = Some (([sample_root @ ''/IM0002: ''
               @ exception_text mixed_world (InvalidDicomError (sample_root @ ''/IM0002'')),
             sample_root @ ''/IM0003: '' @ exception_text mixed_world (KeyError ''PatientSex''),
             sample_root @ ''/IM0004: ''
               @ exception_text mixed_world
                   (OSError ''Anonymised/26110309050012M F 034/T2_SAG_1/EXP0003.dcm'')], []),
           [''Anonymised/26110309050012M F 034/T2_SAG_1/EXP0000.dcm'',
            ''Anonymised/26110309050012M F 034/T2_SAG_1/EXP0004.dcm''])"
  by code_simp

lemma mixed_session_runE:
  obtains w' where
    "process_folder sample_clock mixed_world
     (sample_root, [''IM0005'', ''IM0003'', ''IM0001'', ''IM0004'', ''IM0002''], ''/Dataset'',
      (''T2_AX'', ''T2_SAG''), [], [])
     = Some (([sample_root @ ''/IM0002: ''
               @ exception_text mixed_world (InvalidDicomError (sample_root @ ''/IM0002'')),
             sample_root @ ''/IM0003: '' @ exception_text mixed_world (KeyError ''PatientSex''),
             sample_root @ ''/IM0004: ''
               @ exception_text mixed_world
                   (OSError ''Anonymised/26110309050012M F 034/T2_SAG_1/EXP0003.dcm'')], []), w')"
    "written w' = [''Anonymised/26110309050012M F 034/T2_SAG_1/EXP0000.dcm'',
            ''Anonymised/26110309050012M F 034/T2_SAG_1/EXP0004.dcm'']"
  using mixed_session_run by (auto simp: apsnd_def map_prod_def split: prod.splits)

lemma mixed_reads:
  "dcmread mixed_world (os_path_join sample_root ''IM0002'') = Inl (InvalidDicomError (sample_root @ ''/IM0002''))"
  "dcmread mixed_world (os_path_join sample_root ''IM0003'') = Inr incomplete_record"
  "dcmread mixed_world (os_path_join sample_root ''IM0004'') = Inr sample_record"
  "dcmread uniform_world (os_path_join ''/Dataset/unnamed/T2_SAG_1/DICOM/EXP00000'' ''IM0001'') = Inr sample_record"
  by code_simp+

lemma mixed_extracts:
  "extract_id_sex_age (os_path_join sample_root ''IM0003'') = Inr (''12'', ''F'', ''034'')"
  "extract_id_sex_age (os_path_join sample_root ''IM0004'') = Inr (''12'', ''F'', ''034'')"
  "extract_id_sex_age (os_path_join ''/Dataset/unnamed/T2_SAG_1/DICOM/EXP00000'' ''IM0001'')
     = Inl (AttributeError ''group'')"
  by code_simp+

lemma mixed_anonymise:
  "anonymise incomplete_record ''F'' ''034'' (''261103090500'' @ ''12'' @ ''M'') = Inl (KeyError ''PatientSex'')"
  "\<exists>y. anonymise sample_record ''F'' ''034'' (''261103090500'' @ ''12'' @ ''M'') = Inr y"
proof -
  show "anonymise incomplete_record ''F'' ''034'' (''261103090500'' @ ''12'' @ ''M'') = Inl (KeyError ''PatientSex'')"
    by code_simp
  have "isl (anonymise sample_record ''F'' ''034'' (''261103090500'' @ ''12'' @ ''M'')) = False"
    by code_simp
  then show "\<exists>y. anonymise sample_record ''F'' ''034'' (''261103090500'' @ ''12'' @ ''M'') = Inr y"
    by (cases "anonymise sample_record ''F'' ''034'' (''261103090500'' @ ''12'' @ ''M'')") simp_all
qed

lemma mixed_subs:
  "py_re_sub mixed_world ''/Data+set'' ''Anonymised'' (re_sub_DICOM (os_path_join sample_root ''IM0004''))
     = Inl (ReError ''/Data+set'')"
  "py_re_sub mixed_world ''/Dataset'' ''Anonymised'' (re_sub_DICOM (os_path_join sample_root ''IM0004''))
     = Inr ''Anonymised/12 F 034/T2_SAG_1/''"
  "py_re_sub mixed_world ''12'' (''261103090500'' @ ''12'' @ ''M'') ''Anonymised/12 F 034/T2_SAG_1/''
     = Inr ''Anonymised/26110309050012M F 034/T2_SAG_1/''"
  by code_simp+

lemma mixed_write:
  "makedirs_fails mixed_world ''Anonymised/26110309050012M F 034/T2_SAG_1/'' = False"
  "save_fails mixed_world ''Anonymised/26110309050012M F 034/T2_SAG_1/EXP0003.dcm'' = True"
  "os_path_join ''Anonymised/26110309050012M F 034/T2_SAG_1/''
        (''EXP'' @ [''0000'', ''0001'', ''0002'', ''0003'', ''0004''] ! 3 @ ''.dcm'')
     = ''Anonymised/26110309050012M F 034/T2_SAG_1/EXP0003.dcm''"
  by code_simp+



text \<open>
  Claim C3 on the sample session: of four files the second in sorted order cannot be
  read; three files are written and the failure list has the one entry of that file.
  In the second session three of five files fail, each for another reason, and the
  two others are written. The last five conjuncts are the single files that fail with a
  load error, an extraction mismatch, an error of \<^verbatim>\<open>anonymise\<close>, an invalid pattern
  and a write error.
\<close>

theorem process_folder_isolates_failures_witness:
  "(\<exists>w'. process_folder sample_clock sample_world
       (sample_root, [''IM0003'', ''IM0001'', ''IM0004'', ''IM0002''], ''/Dataset'',
        (''T2_AX'', ''T2_SAG''), [], [])
     = Some (([sample_root @ ''/IM0002: ''
                 @ exception_text sample_world (InvalidDicomError (sample_root @ ''/IM0002''))], []), w')
     \<and> written w' = [''Anonymised/26110309050012M F 034/T2_SAG_1/EXP0000.dcm'',
            ''Anonymised/26110309050012M F 034/T2_SAG_1/EXP0002.dcm'',
            ''Anonymised/26110309050012M F 034/T2_SAG_1/EXP0003.dcm'']
     \<and> (\<exists>outs. written w' = written sample_world @ outs
           \<and> length [sample_root @ ''/IM0002: ''
                 @ exception_text sample_world (InvalidDicomError (sample_root @ ''/IM0002''))]
               + length outs = length [''IM0003'', ''IM0001'', ''IM0004'', ''IM0002'']))
   \<and> (\<exists>w'. process_folder sample_clock mixed_world
       (sample_root, [''IM0005'', ''IM0003'', ''IM0001'', ''IM0004'', ''IM0002''], ''/Dataset'',
        (''T2_AX'', ''T2_SAG''), [], [])
     = Some (([sample_root @ ''/IM0002: ''
               @ exception_text mixed_world (InvalidDicomError (sample_root @ ''/IM0002'')),
             sample_root @ ''/IM0003: '' @ exception_text mixed_world (KeyError ''PatientSex''),
             sample_root @ ''/IM0004: ''
               @ exception_text mixed_world
                   (OSError ''Anonymised/26110309050012M F 034/T2_SAG_1/EXP0003.dcm'')], []), w')
     \<and> written w' = [''Anonymised/26110309050012M F 034/T2_SAG_1/EXP0000.dcm'',
            ''Anonymised/26110309050012M F 034/T2_SAG_1/EXP0004.dcm''])
   \<and> process_file sample_root ''/Dataset'' (Some ''261103090500'')
        [''0000'', ''0001'', ''0002'', ''0003'', ''0004''] 1 ''IM0002'' mixed_world
      = Inl (InvalidDicomError (sample_root @ ''/IM0002''))
   \<and> process_file ''/Dataset/unnamed/T2_SAG_1/DICOM/EXP00000'' ''/Dataset'' (Some ''261103090500'')
        [''0000''] 0 ''IM0001'' uniform_world
      = Inl (AttributeError ''group'')
   \<and> process_file sample_root ''/Dataset'' (Some ''261103090500'')
        [''0000'', ''0001'', ''0002'', ''0003'', ''0004''] 2 ''IM0003'' mixed_world
      = Inl (KeyError ''PatientSex'')
   \<and> process_file sample_root ''/Data+set'' (Some ''261103090500'')
        [''0000'', ''0001'', ''0002'', ''0003'', ''0004''] 3 ''IM0004'' mixed_world
      = Inl (ReError ''/Data+set'')
   \<and> process_file sample_root ''/Dataset'' (Some ''261103090500'')
        [''0000'', ''0001'', ''0002'', ''0003'', ''0004''] 3 ''IM0004'' mixed_world
      = Inl (OSError ''Anonymised/26110309050012M F 034/T2_SAG_1/EXP0003.dcm'')"
proof (intro conjI)
  obtain w' where
    r: "process_folder sample_clock sample_world
       (sample_root, [''IM0003'', ''IM0001'', ''IM0004'', ''IM0002''], ''/Dataset'',
        (''T2_AX'', ''T2_SAG''), [], [])
     = Some (([sample_root @ ''/IM0002: ''
                 @ exception_text sample_world (InvalidDicomError (sample_root @ ''/IM0002''))], []), w')"
    and w: "written w' = [''Anonymised/26110309050012M F 034/T2_SAG_1/EXP0000.dcm'',
            ''Anonymised/26110309050012M F 034/T2_SAG_1/EXP0002.dcm'',
            ''Anonymised/26110309050012M F 034/T2_SAG_1/EXP0003.dcm'']"
    by (rule sample_session_runE)
  have n: "[''IM0003'', ''IM0001'', ''IM0004'', ''IM0002''] \<noteq> []" by simp
  from process_folder_isolates_failures[OF n, of sample_clock "[]" sample_world sample_root
      "''/Dataset''" "(''T2_AX'', ''T2_SAG'')" "[]"
      "[sample_root @ ''/IM0002: ''
          @ exception_text sample_world (InvalidDicomError (sample_root @ ''/IM0002''))]" "[]" w'] r
  have "\<exists>outs. written w' = written sample_world @ outs
         \<and> length [sample_root @ ''/IM0002: ''
                 @ exception_text sample_world (InvalidDicomError (sample_root @ ''/IM0002''))]
             + length outs = length [''IM0003'', ''IM0001'', ''IM0004'', ''IM0002'']"
    by blast
  with r w show "\<exists>w'. process_folder sample_clock sample_world
       (sample_root, [''IM0003'', ''IM0001'', ''IM0004'', ''IM0002''], ''/Dataset'',
        (''T2_AX'', ''T2_SAG''), [], [])
     = Some (([sample_root @ ''/IM0002: ''
                 @ exception_text sample_world (InvalidDicomError (sample_root @ ''/IM0002''))], []), w')
     \<and> written w' = [''Anonymised/26110309050012M F 034/T2_SAG_1/EXP0000.dcm'',
            ''Anonymised/26110309050012M F 034/T2_SAG_1/EXP0002.dcm'',
            ''Anonymised/26110309050012M F 034/T2_SAG_1/EXP0003.dcm'']
     \<and> (\<exists>outs. written w' = written sample_world @ outs
           \<and> length [sample_root @ ''/IM0002: ''
                 @ exception_text sample_world (InvalidDicomError (sample_root @ ''/IM0002''))]
               + length outs = length [''IM0003'', ''IM0001'', ''IM0004'', ''IM0002''])"
    by blast
next
  show "\<exists>w'. process_folder sample_clock mixed_world
       (sample_root, [''IM0005'', ''IM0003'', ''IM0001'', ''IM0004'', ''IM0002''], ''/Dataset'',
        (''T2_AX'', ''T2_SAG''), [], [])
     = Some (([sample_root @ ''/IM0002: ''
               @ exception_text mixed_world (InvalidDicomError (sample_root @ ''/IM0002'')),
             sample_root @ ''/IM0003: '' @ exception_text mixed_world (KeyError ''PatientSex''),
             sample_root @ ''/IM0004: ''
               @ exception_text mixed_world
                   (OSError ''Anonymised/26110309050012M F 034/T2_SAG_1/EXP0003.dcm'')], []), w')
     \<and> written w' = [''Anonymised/26110309050012M F 034/T2_SAG_1/EXP0000.dcm'',
            ''Anonymised/26110309050012M F 034/T2_SAG_1/EXP0004.dcm'']"
    using mixed_session_runE by blast
next
  have n: "[''IM0001''] \<noteq> []" by simp
  note T = process_folder_isolates_failures[OF n, THEN conjunct2, THEN conjunct2]
  show "process_file sample_root ''/Dataset'' (Some ''261103090500'')
        [''0000'', ''0001'', ''0002'', ''0003'', ''0004''] 1 ''IM0002'' mixed_world
      = Inl (InvalidDicomError (sample_root @ ''/IM0002''))"
    using T[THEN conjunct1, of mixed_world sample_root "''IM0002''"] mixed_reads(1) by blast
  show "process_file ''/Dataset/unnamed/T2_SAG_1/DICOM/EXP00000'' ''/Dataset'' (Some ''261103090500'')
        [''0000''] 0 ''IM0001'' uniform_world
      = Inl (AttributeError ''group'')"
    using T[THEN conjunct2, THEN conjunct1, of uniform_world "''/Dataset/unnamed/T2_SAG_1/DICOM/EXP00000''"
            "''IM0001''" sample_record "AttributeError ''group''"]
          mixed_reads(4) mixed_extracts(3) by blast
  show "process_file sample_root ''/Dataset'' (Some ''261103090500'')
        [''0000'', ''0001'', ''0002'', ''0003'', ''0004''] 2 ''IM0003'' mixed_world
      = Inl (KeyError ''PatientSex'')"
    using T[THEN conjunct2, THEN conjunct2, THEN conjunct1, of mixed_world sample_root "''IM0003''"
            incomplete_record "''12''" "''F''" "''034''" "''261103090500''" "KeyError ''PatientSex''"]
          mixed_reads(2) mixed_extracts(1) mixed_anonymise(1) by blast
  from mixed_anonymise(2) obtain y where
    y: "anonymise sample_record ''F'' ''034'' (''261103090500'' @ ''12'' @ ''M'') = Inr y" by blast
  show "process_file sample_root ''/Data+set'' (Some ''261103090500'')
        [''0000'', ''0001'', ''0002'', ''0003'', ''0004''] 3 ''IM0004'' mixed_world
      = Inl (ReError ''/Data+set'')"
    using T[THEN conjunct2, THEN conjunct2, THEN conjunct2, THEN conjunct1, of mixed_world sample_root
            "''IM0004''" sample_record "''12''" "''F''" "''034''" "''261103090500''" y "''/Data+set''"
            "ReError ''/Data+set''"]
          mixed_reads(3) mixed_extracts(2) y mixed_subs(1) by blast
  have "process_file sample_root ''/Dataset'' (Some ''261103090500'')
        [''0000'', ''0001'', ''0002'', ''0003'', ''0004''] 3 ''IM0004'' mixed_world
      = (if makedirs_fails mixed_world ''Anonymised/26110309050012M F 034/T2_SAG_1/''
         then Inl (OSError ''Anonymised/26110309050012M F 034/T2_SAG_1/'')
         else if 3 < length [''0000'', ''0001'', ''0002'', ''0003'', ''0004'']
              then (if save_fails mixed_world
                         (os_path_join ''Anonymised/26110309050012M F 034/T2_SAG_1/''
                            (''EXP'' @ [''0000'', ''0001'', ''0002'', ''0003'', ''0004''] ! 3 @ ''.dcm''))
                    then Inl (OSError (os_path_join ''Anonymised/26110309050012M F 034/T2_SAG_1/''
                            (''EXP'' @ [''0000'', ''0001'', ''0002'', ''0003'', ''0004''] ! 3 @ ''.dcm'')))
                    else Inr (mixed_world\<lparr>fs := (fs mixed_world)
                               (os_path_join ''Anonymised/26110309050012M F 034/T2_SAG_1/''
                                  (''EXP'' @ [''0000'', ''0001'', ''0002'', ''0003'', ''0004''] ! 3 @ ''.dcm'')
                                \<mapsto> Dicom y),
                             written := written mixed_world
                               @ [os_path_join ''Anonymised/26110309050012M F 034/T2_SAG_1/''
                                  (''EXP'' @ [''0000'', ''0001'', ''0002'', ''0003'', ''0004''] ! 3 @ ''.dcm'')]\<rparr>))
              else Inl IndexError)"
    using T[THEN conjunct2, THEN conjunct2, THEN conjunct2, THEN conjunct2, of mixed_world sample_root
            "''IM0004''" sample_record "''12''" "''F''" "''034''" "''261103090500''" y "''/Dataset''"
            "''Anonymised/12 F 034/T2_SAG_1/''" "''Anonymised/26110309050012M F 034/T2_SAG_1/''"]
          mixed_reads(3) mixed_extracts(2) y mixed_subs(2,3) by blast
  then show "process_file sample_root ''/Dataset'' (Some ''261103090500'')
        [''0000'', ''0001'', ''0002'', ''0003'', ''0004''] 3 ''IM0004'' mixed_world
      = Inl (OSError ''Anonymised/26110309050012M F 034/T2_SAG_1/EXP0003.dcm'')"
    unfolding mixed_write(3) by (simp add: mixed_write(1,2))
qed

text \<open>
  Claim C7 on the sample world: the empty session, and the session with files, whose
  empty-directory list is empty.
\<close>

theorem process_folder_empty_session_witness:
  "process_folder sample_clock sample_world
      (sample_root, [], ''/Dataset'', (''T2_AX'', ''T2_SAG''), [], [])
     = Some (([], [sample_root]), sample_world)
   \<and> (\<exists>w'. process_folder sample_clock sample_world
       (sample_root, [''IM0003'', ''IM0001'', ''IM0004'', ''IM0002''], ''/Dataset'',
        (''T2_AX'', ''T2_SAG''), [], [])
     = Some (([sample_root @ ''/IM0002: '' @ exception_text sample_world (InvalidDicomError (sample_root @ ''/IM0002''))], []), w'))
   \<and> ([sample_root @ ''/IM0002: '' @ exception_text sample_world (InvalidDicomError (sample_root @ ''/IM0002''))] = []
        \<or> ([] :: string list) = [])"
proof -
  obtain w' where
    r: "process_folder sample_clock sample_world
       (sample_root, [''IM0003'', ''IM0001'', ''IM0004'', ''IM0002''], ''/Dataset'',
        (''T2_AX'', ''T2_SAG''), [], [])
     = Some (([sample_root @ ''/IM0002: '' @ exception_text sample_world (InvalidDicomError (sample_root @ ''/IM0002''))], []), w')"
    by (rule sample_session_runE)
  from process_folder_empty_session[of sample_clock sample_world sample_root "''/Dataset''"
      "(''T2_AX'', ''T2_SAG'')" "[]" "[]" "[''IM0003'', ''IM0001'', ''IM0004'', ''IM0002'']"
      "[sample_root @ ''/IM0002: '' @ exception_text sample_world (InvalidDicomError (sample_root @ ''/IM0002''))]" "[]" w'] r
  show ?thesis by blast
qed


subsection \<open>A session without failures\<close>

lemma sample_valid_session_run:
  "map_option (apsnd written) (process_folder sample_clock sample_world
     (sample_root, [''IM0004'', ''IM0001'', ''IM0003''], ''/Dataset'',
      (''T2_AX'', ''T2_SAG''), [], []))
   = Some (([], []),
           [''Anonymised/26110309050012M F 034/T2_SAG_1/EXP0000.dcm'',
            ''Anonymised/26110309050012M F 034/T2_SAG_1/EXP0001.dcm'',
            ''Anonymised/26110309050012M F 034/T2_SAG_1/EXP0002.dcm''])"
  by code_simp


text \<open>
  Claim C6 on three readable files listed out of order: the outputs are numbered in
  sorted order, and the sorted listing gives the same result.
\<close>

theorem process_folder_names_outputs_by_sorted_index_witness:
  "\<exists>w'. process_folder sample_clock sample_world
       (sample_root, [''IM0004'', ''IM0001'', ''IM0003''], ''/Dataset'', (''T2_AX'', ''T2_SAG''), [], [])
     = Some (([], []), w')
   \<and> written w' = [''Anonymised/26110309050012M F 034/T2_SAG_1/EXP0000.dcm'',
            ''Anonymised/26110309050012M F 034/T2_SAG_1/EXP0001.dcm'',
            ''Anonymised/26110309050012M F 034/T2_SAG_1/EXP0002.dcm'']
   \<and> distinct (written w')
   \<and> process_folder sample_clock sample_world
       (sample_root, [''IM0001'', ''IM0003'', ''IM0004''], ''/Dataset'', (''T2_AX'', ''T2_SAG''), [], [])
     = Some (([], []), w')"
proof -
  obtain w' where
    r: "process_folder sample_clock sample_world
       (sample_root, [''IM0004'', ''IM0001'', ''IM0003''], ''/Dataset'', (''T2_AX'', ''T2_SAG''), [], [])
     = Some (([], []), w')"
    and w: "written w' = [''Anonymised/26110309050012M F 034/T2_SAG_1/EXP0000.dcm'',
            ''Anonymised/26110309050012M F 034/T2_SAG_1/EXP0001.dcm'',
            ''Anonymised/26110309050012M F 034/T2_SAG_1/EXP0002.dcm'']"
    using sample_valid_session_run by (auto simp: apsnd_def map_prod_def split: prod.splits)
  have n: "[''IM0004'', ''IM0001'', ''IM0003''] \<noteq> []" by simp
  have m: "mset [''IM0001'', ''IM0003'', ''IM0004''] = mset [''IM0004'', ''IM0001'', ''IM0003'']"
    by (simp add: add.commute)
  note t = process_folder_names_outputs_by_sorted_index[OF n, of sample_clock sample_world sample_root
      "''/Dataset''" "(''T2_AX'', ''T2_SAG'')" "[]" "[]" "[]" w' "[''IM0001'', ''IM0003'', ''IM0004'']"]
  from t r obtain outs where "written w' = written sample_world @ outs" "distinct outs" by blast
  then have d: "distinct (written w')" by (simp add: sample_world_def)
  from t m r have "process_folder sample_clock sample_world
       (sample_root, [''IM0001'', ''IM0003'', ''IM0004''], ''/Dataset'', (''T2_AX'', ''T2_SAG''), [], [])
     = Some (([], []), w')" by simp
  with r w d show ?thesis by blast
qed


subsection \<open>The work list of the driver\<close>

text \<open>
  Claim C9 on a walk of the sample tree: one work item, classified as new, whose token
  is the first reading of the clock.
\<close>

theorem main_work_items_are_new_sessions_witness:
  "all_roots [(''/Dataset'', [''12 F 034''], []),
              (''/Dataset/12 F 034'', [''T2_SAG_1''], []),
              (sample_root, [], [''IM0003'', ''IM0001'', ''IM0004'', ''IM0002''])] ''/Dataset''
     = [(sample_root, [''IM0003'', ''IM0001'', ''IM0004'', ''IM0002''], ''/Dataset'',
         (''T2_AX'', ''T2_SAG''), [], [])]
   \<and> is_substring ''EXP00000'' sample_root
   \<and> new_patient sample_root (''T2_AX'', ''T2_SAG'') []
   \<and> fresh_token sample_clock [] = Some ''261103090500''"
proof -
  have a: "all_roots [(''/Dataset'', [''12 F 034''], []),
              (''/Dataset/12 F 034'', [''T2_SAG_1''], []),
              (sample_root, [], [''IM0003'', ''IM0001'', ''IM0004'', ''IM0002''])] ''/Dataset''
     = [(sample_root, [''IM0003'', ''IM0001'', ''IM0004'', ''IM0002''], ''/Dataset'',
         (''T2_AX'', ''T2_SAG''), [], [])]"
    by code_simp
  have t: "now_token (sample_clock 0) = ''261103090500''" by code_simp
  have i: "(sample_root, [''IM0003'', ''IM0001'', ''IM0004'', ''IM0002''], ''/Dataset'',
         (''T2_AX'', ''T2_SAG''), [], [])
        \<in> set (all_roots [(''/Dataset'', [''12 F 034''], []),
              (''/Dataset/12 F 034'', [''T2_SAG_1''], []),
              (sample_root, [], [''IM0003'', ''IM0001'', ''IM0004'', ''IM0002''])] ''/Dataset'')"
    unfolding a by simp
  from main_work_items_are_new_sessions
    [of "[(''/Dataset'', [''12 F 034''], []),
              (''/Dataset/12 F 034'', [''T2_SAG_1''], []),
              (sample_root, [], [''IM0003'', ''IM0001'', ''IM0004'', ''IM0002''])]" "''/Dataset''"
        sample_clock sample_world, THEN bspec, OF i]
  obtain root files where
    "(sample_root, [''IM0003'', ''IM0001'', ''IM0004'', ''IM0002''], ''/Dataset'',
         (''T2_AX'', ''T2_SAG''), [], []) = (root, files, ''/Dataset'', (''T2_AX'', ''T2_SAG''), [], [])"
    "is_substring ''EXP00000'' root"
    "new_patient root (''T2_AX'', ''T2_SAG'') []"
    "fresh_token sample_clock [] = Some (now_token (sample_clock 0))"
    by blast
  then have "is_substring ''EXP00000'' sample_root"
    "new_patient sample_root (''T2_AX'', ''T2_SAG'') []"
    "fresh_token sample_clock [] = Some ''261103090500''"
    unfolding t by simp_all
  with a show ?thesis by blast
qed


subsection \<open>A session whose directory matches the previous one\<close>

text \<open>
  Claim C1, where the code departs from it. The sample session is the sagittal folder
  of a visit whose axial folder was recorded as the previous directory, so the session
  is not new. \<^verbatim>\<open>process_folder\<close> assigns \<^verbatim>\<open>date_time\<close> only in the branch for a new
  session; here every readable file fails with \<^verbatim>\<open>UnboundLocalError\<close> when the
  identifier is built, nothing is written, and the previous token is never used.
\<close>

theorem process_folder_same_visit_loses_token:
  "\<not> new_patient sample_root (''T2_AX'', ''T2_SAG'') ''/Dataset/12 F 034/T2_AX_1/DICOM/EXP00000''
   \<and> map_option (apsnd written) (process_folder sample_clock sample_world
       (sample_root, [''IM0003'', ''IM0001'', ''IM0004'', ''IM0002''], ''/Dataset'',
        (''T2_AX'', ''T2_SAG''), ''/Dataset/12 F 034/T2_AX_1/DICOM/EXP00000'', ''261103090400''))
     = Some (([sample_root @ ''/IM0001: '' @ exception_text sample_world (UnboundLocalError ''date_time''),
               sample_root @ ''/IM0002: '' @ exception_text sample_world (InvalidDicomError (sample_root @ ''/IM0002'')),
               sample_root @ ''/IM0003: '' @ exception_text sample_world (UnboundLocalError ''date_time''),
               sample_root @ ''/IM0004: '' @ exception_text sample_world (UnboundLocalError ''date_time'')], []),
             [])"
  by code_simp

subsection \<open>A session with more than ten thousand files\<close>

lemma process_file_succeeds:
  assumes "fs w (os_path_join root filename) = Some (Dicom d)"
    and "contains ''PatientSex'' (elements d)" "contains ''PatientAge'' (elements d)"
      "contains ''PatientID'' (elements d)"
    and "extract_id_sex_age (os_path_join root filename) = Inr (mater_id, sex, age)"
    and "\<forall>p. \<not> makedirs_fails w p" "\<forall>p. \<not> save_fails w p"
    and "idx < length names"
    and "\<not> list_ex re_special path" and "\<forall>c \<in> set dt. is_digit c"
  shows "\<exists>w' d' out. process_file root path (Some dt) names idx filename w = Inr w'
           \<and> fs w' = (fs w)(out \<mapsto> Dicom d')
           \<and> contains ''PatientSex'' (elements d') \<and> contains ''PatientAge'' (elements d')
           \<and> contains ''PatientID'' (elements d')
           \<and> makedirs_fails w' = makedirs_fails w \<and> save_fails w' = save_fails w"
proof -
  have r: "dcmread w (os_path_join root filename) = Inr d"
    using assms(1) by (simp add: dcmread_def)
  obtain d' where a: "anonymise d sex age (dt @ mater_id @ ''M'') = Inr d'"
    using assms(2-4) by (simp add: anonymise_eq)
  from anonymise_Inr[OF a] have c: "contains ''PatientSex'' (elements d')"
    "contains ''PatientAge'' (elements d')" "contains ''PatientID'' (elements d')"
    by (simp_all add: contains_set_value contains_redact)
  let ?base = "re_sub path ''Anonymised'' (re_sub_DICOM (os_path_join root filename))"
  let ?dir = "re_sub mater_id (dt @ mater_id @ ''M'') ?base"
  let ?out = "os_path_join ?dir (''EXP'' @ names ! idx @ ''.dcm'')"
  have b: "py_re_sub w path ''Anonymised'' (re_sub_DICOM (os_path_join root filename)) = Inr ?base"
    by (rule py_re_sub_plain[OF assms(9)]) simp
  have s: "py_re_sub w mater_id (dt @ mater_id @ ''M'') ?base = Inr ?dir"
    by (rule py_re_sub_token[OF assms(5,10)])
  have "process_file root path (Some dt) names idx filename w
          = Inr (w\<lparr>fs := (fs w)(?out \<mapsto> Dicom d'), written := written w @ [?out]\<rparr>)"
    unfolding process_file_write_error[OF r assms(5) a b s] using assms(6,7,8) by simp
  with c show ?thesis
    by (intro exI[of _ "w\<lparr>fs := (fs w)(?out \<mapsto> Dicom d'), written := written w @ [?out]\<rparr>"]
          exI[of _ d'] exI[of _ ?out]) simp
qed

lemma for_each_file_all_succeed:
  assumes "\<forall>item \<in> set items. \<exists>m s a. extract_id_sex_age (os_path_join root (snd item)) = Inr (m, s, a)"
    and "\<forall>p. \<exists>d. fs w p = Some (Dicom d) \<and> contains ''PatientSex'' (elements d)
            \<and> contains ''PatientAge'' (elements d) \<and> contains ''PatientID'' (elements d)"
    and "\<forall>p. \<not> makedirs_fails w p" "\<forall>p. \<not> save_fails w p"
    and "\<forall>item \<in> set items. fst item < length names"
    and "\<not> list_ex re_special path" and "\<forall>c \<in> set dt. is_digit c"
  shows "\<exists>w'. for_each_file root path (Some dt) names items problematic w = (problematic, w')"
  using assms
proof (induction items arbitrary: w)
  case Nil
  then show ?case by simp
next
  case (Cons item rest)
  obtain idx filename where item: "item = (idx, filename)" by (cases item)
  from Cons.prems(1) item obtain m s a where
    e: "extract_id_sex_age (os_path_join root filename) = Inr (m, s, a)" by auto
  from Cons.prems(2) obtain d where
    d: "fs w (os_path_join root filename) = Some (Dicom d)" "contains ''PatientSex'' (elements d)"
      "contains ''PatientAge'' (elements d)" "contains ''PatientID'' (elements d)"
    by blast
  from Cons.prems(5) item have ix: "idx < length names" by simp
  from process_file_succeeds[OF d e Cons.prems(3,4) ix Cons.prems(6,7)] obtain w1 d1 out where
    p: "process_file root path (Some dt) names idx filename w = Inr w1"
      "fs w1 = (fs w)(out \<mapsto> Dicom d1)"
      "contains ''PatientSex'' (elements d1)" "contains ''PatientAge'' (elements d1)"
      "contains ''PatientID'' (elements d1)"
      "makedirs_fails w1 = makedirs_fails w" "save_fails w1 = save_fails w"
    by blast
  have 1: "\<forall>item \<in> set rest. \<exists>m s a. extract_id_sex_age (os_path_join root (snd item)) = Inr (m, s, a)"
    using Cons.prems(1) by simp
  have 2: "\<forall>p. \<exists>d. fs w1 p = Some (Dicom d) \<and> contains ''PatientSex'' (elements d)
            \<and> contains ''PatientAge'' (elements d) \<and> contains ''PatientID'' (elements d)"
  proof
    fix q
    show "\<exists>d. fs w1 q = Some (Dicom d) \<and> contains ''PatientSex'' (elements d)
            \<and> contains ''PatientAge'' (elements d) \<and> contains ''PatientID'' (elements d)"
    proof (cases "q = out")
      case True
      with p(2-5) show ?thesis by simp
    next
      case False
      with p(2) Cons.prems(2) show ?thesis by simp
    qed
  qed
  have 3: "\<forall>p. \<not> makedirs_fails w1 p" "\<forall>p. \<not> save_fails w1 p"
    using p(6,7) Cons.prems(3,4) by simp_all
  have 4: "\<forall>item \<in> set rest. fst item < length names" using Cons.prems(5) by simp
  from Cons.IH[OF 1 2 3 4 Cons.prems(6,7)] obtain w' where
    "for_each_file root path (Some dt) names rest problematic w1 = (problematic, w')" by blast
  then have "for_each_file root path (Some dt) names (item # rest) problematic w = (problematic, w')"
    unfolding item for_each_file_Cons_Inr[OF p(1)] .
  then show ?case by (rule exI)
qed

lemma sample_join:
  assumes "\<forall>c \<in> set f. is_digit c"
  shows "os_path_join sample_root f = ''/Dataset/12 F 034/T2_SAG_1/DICOM/EXP00000/'' @ f"
proof -
  have "\<not> prefix ''/'' f" using assms slash_not_digit by (cases f) auto
  moreover have "\<not> suffix ''/'' sample_root" "sample_root \<noteq> []" by code_simp+
  moreover have "sample_root @ ''/'' = ''/Dataset/12 F 034/T2_SAG_1/DICOM/EXP00000/''" by code_simp
  ultimately show ?thesis by (simp add: os_path_join_def)
qed

lemma sample_extract_any:
  assumes "\<forall>c \<in> set f. is_digit c"
  shows "extract_id_sex_age (os_path_join sample_root f) = Inr (''12'', ''F'', ''034'')"
proof -
  have d: "\<forall>c \<in> set ''12''. is_digit c" "\<forall>c \<in> set ''034''. is_digit c"
    by (simp_all add: is_digit_def)
  have "match_here (''12'' @ [CHR '' '', CHR ''F'', CHR '' ''] @ ''034'' @ (''/T2_SAG_1/DICOM/EXP00000/'' @ f))
          = Some (''12'' @ [CHR '' '', CHR ''F'', CHR '' ''] @ ''034''
                    @ takeWhile is_digit (''/T2_SAG_1/DICOM/EXP00000/'' @ f))"
    by (rule match_here_at) (use d in simp_all)
  then have m: "match_here (''12'' @ [CHR '' '', CHR ''F'', CHR '' ''] @ ''034'' @ (''/T2_SAG_1/DICOM/EXP00000/'' @ f))
          = Some (''12'' @ [CHR '' '', CHR ''F'', CHR '' ''] @ ''034'')"
    by (simp add: slash_not_digit)
  have "re_search (''/Dataset/'' @ (''12'' @ [CHR '' '', CHR ''F'', CHR '' ''] @ ''034'' @ (''/T2_SAG_1/DICOM/EXP00000/'' @ f)))
          = Some (''12'' @ [CHR '' '', CHR ''F'', CHR '' ''] @ ''034'')"
    by (rule re_search_leftmost[OF _ m]) (simp add: is_digit_def)
  then have "re_search (os_path_join sample_root f) = Some (''12'' @ [CHR '' '', CHR ''F'', CHR '' ''] @ ''034'')"
    unfolding sample_join[OF assms] by simp
  from extract_of_group[OF this] d show ?thesis by simp
qed

lemma newline_not_digit: "\<not> is_digit (CHR 0x0A)"
  by (simp add: is_digit_def)

lemma dropWhile_line: "\<forall>c \<in> set f. is_digit c \<Longrightarrow> dropWhile (\<lambda>x. x \<noteq> CHR 0x0A) f = []"
  using newline_not_digit by auto

lemma sample_re_sub_DICOM:
  assumes "\<forall>c \<in> set f. is_digit c"
  shows "re_sub_DICOM (os_path_join sample_root f) = ''/Dataset/12 F 034/T2_SAG_1/''"
  unfolding sample_join[OF assms] by (simp add: dropWhile_line[OF assms])

lemma uniform_world_run:
  assumes "files \<noteq> []" and "\<forall>f \<in> set files. \<forall>c \<in> set f. is_digit c"
  shows "\<exists>w' outs. process_folder sample_clock uniform_world
            (sample_root, files, ''/Dataset'', (''T2_AX'', ''T2_SAG''), [], []) = Some (([], []), w')
          \<and> written w' = outs \<and> length outs = length files
          \<and> (\<forall>i < length files. outs ! i =
                os_path_join ''Anonymised/26110309050012M F 034/T2_SAG_1/'' (''EXP'' @ fmt_0d 4 i @ ''.dcm''))"
proof -
  let ?names = "map (fmt_0d 4) [0 ..< length files]"
  let ?items = "enumerate 0 (sort files)"
  have tok: "now_token (sample_clock 0) = ''261103090500''" by code_simp
  have t: "fresh_token sample_clock [] = Some ''261103090500''"
    using fresh_token_first[of sample_clock "[]"] now_token_nonempty[of "sample_clock 0"]
    unfolding tok by simp
  have n: "new_patient sample_root (''T2_AX'', ''T2_SAG'') []" by code_simp
  have dig: "\<forall>c \<in> set (snd item). is_digit c" if "item \<in> set ?items" for item
  proof -
    from that have "snd item \<in> snd ` set ?items" by (rule imageI)
    then have "snd item \<in> set files" unfolding snd_enumerate_sort .
    with assms(2) show ?thesis by blast
  qed
  have 1: "\<forall>item \<in> set ?items. \<exists>m s a.
             extract_id_sex_age (os_path_join sample_root (snd item)) = Inr (m, s, a)"
    using sample_extract_any[OF dig] by blast
  have 2: "\<forall>p. \<exists>d. fs uniform_world p = Some (Dicom d) \<and> contains ''PatientSex'' (elements d)
            \<and> contains ''PatientAge'' (elements d) \<and> contains ''PatientID'' (elements d)"
    by (simp add: uniform_world_def sample_record_def contains_def)
  have 3: "\<forall>p. \<not> makedirs_fails uniform_world p" "\<forall>p. \<not> save_fails uniform_world p"
    by (simp_all add: uniform_world_def)
  have 4: "\<forall>item \<in> set ?items. fst item < length ?names"
    by (auto simp: in_set_enumerate_eq)
  have 5: "\<not> list_ex re_special ''/Dataset''" by code_simp
  have 6: "\<forall>c \<in> set ''261103090500''. is_digit c" by code_simp
  from for_each_file_all_succeed[OF 1 2 3 4 5 6, of "[]"]
  obtain w' where
    f: "for_each_file sample_root ''/Dataset'' (Some ''261103090500'') ?names ?items [] uniform_world
          = ([], w')" by blast
  have r: "process_folder sample_clock uniform_world
            (sample_root, files, ''/Dataset'', (''T2_AX'', ''T2_SAG''), [], []) = Some (([], []), w')"
    unfolding process_folder_nonempty[OF assms(1)] using n t f by simp
  from for_each_file_all_written[OF f] obtain outs where
    o: "written w' = written uniform_world @ outs"
    and l: "list_all2 (\<lambda>item out. \<exists>m s a dt base save_to. Some ''261103090500'' = Some dt
            \<and> extract_id_sex_age (os_path_join sample_root (snd item)) = Inr (m, s, a)
            \<and> py_re_sub uniform_world ''/Dataset'' ''Anonymised''
                  (re_sub_DICOM (os_path_join sample_root (snd item))) = Inr base
            \<and> py_re_sub uniform_world m (dt @ m @ ''M'') base = Inr save_to
            \<and> out = os_path_join save_to (''EXP'' @ ?names ! fst item @ ''.dcm'')) ?items outs"
    by blast
  from o have w: "written w' = outs" by (simp add: uniform_world_def)
  from l have len: "length outs = length files" by (simp add: list_all2_lengthD[symmetric])
  have base: "py_re_sub uniform_world ''/Dataset'' ''Anonymised'' ''/Dataset/12 F 034/T2_SAG_1/''
             = Inr ''Anonymised/12 F 034/T2_SAG_1/''"
    by code_simp
  have dir: "py_re_sub uniform_world ''12'' (''261103090500'' @ ''12'' @ ''M'')
               ''Anonymised/12 F 034/T2_SAG_1/''
             = Inr ''Anonymised/26110309050012M F 034/T2_SAG_1/''"
    by code_simp
  have nth: "outs ! i = os_path_join ''Anonymised/26110309050012M F 034/T2_SAG_1/''
                          (''EXP'' @ fmt_0d 4 i @ ''.dcm'')" if "i < length files" for i
  proof -
    from that have i: "i < length ?items" by simp
    from that have it: "?items ! i = (i, sort files ! i)" by (simp add: nth_enumerate_eq)
    from that have nm: "?names ! i = fmt_0d 4 i" by simp
    from i have "?items ! i \<in> set ?items" by (rule nth_mem)
    from dig[OF this] have d: "\<forall>c \<in> set (sort files ! i). is_digit c" unfolding it by simp
    from list_all2_nthD[OF l i] have "\<exists>m s a dt base save_to. Some ''261103090500'' = Some dt
        \<and> extract_id_sex_age (os_path_join sample_root (sort files ! i)) = Inr (m, s, a)
        \<and> py_re_sub uniform_world ''/Dataset'' ''Anonymised''
              (re_sub_DICOM (os_path_join sample_root (sort files ! i))) = Inr base
        \<and> py_re_sub uniform_world m (dt @ m @ ''M'') base = Inr save_to
        \<and> outs ! i = os_path_join save_to (''EXP'' @ fmt_0d 4 i @ ''.dcm'')"
      unfolding it fst_conv snd_conv nm .
    then obtain m s a dt base save_to where
      p: "Some ''261103090500'' = Some dt"
        "extract_id_sex_age (os_path_join sample_root (sort files ! i)) = Inr (m, s, a)"
        "py_re_sub uniform_world ''/Dataset'' ''Anonymised''
              (re_sub_DICOM (os_path_join sample_root (sort files ! i))) = Inr base"
        "py_re_sub uniform_world m (dt @ m @ ''M'') base = Inr save_to"
        "outs ! i = os_path_join save_to (''EXP'' @ fmt_0d 4 i @ ''.dcm'')"
      by blast
    from p(1) have dt: "dt = ''261103090500''" by simp
    from p(2) have m: "m = ''12''" unfolding sample_extract_any[OF d] by simp
    from p(3) have b: "base = ''Anonymised/12 F 034/T2_SAG_1/''"
      unfolding sample_re_sub_DICOM[OF d] base by simp
    from p(4) have s: "save_to = ''Anonymised/26110309050012M F 034/T2_SAG_1/''"
      unfolding dt m b dir by simp
    show ?thesis using p(5) unfolding s .
  qed
  from r w len nth show ?thesis by blast
qed

text \<open>
  Claim C6 as it is worded fails: in a session of 10001 files that all succeed, the file
  at position 10000 is written under an index of five digits.
\<close>

theorem process_folder_five_digit_index_counterexample:
  "map_option (fst \<circ> fst) (process_folder sample_clock uniform_world
      (sample_root, map (fmt_0d 5) [0 ..< 10001], ''/Dataset'', (''T2_AX'', ''T2_SAG''), [], []))
     = Some []
   \<and> map_option (length \<circ> written \<circ> snd) (process_folder sample_clock uniform_world
      (sample_root, map (fmt_0d 5) [0 ..< 10001], ''/Dataset'', (''T2_AX'', ''T2_SAG''), [], []))
     = Some 10001
   \<and> map_option (last \<circ> written \<circ> snd) (process_folder sample_clock uniform_world
      (sample_root, map (fmt_0d 5) [0 ..< 10001], ''/Dataset'', (''T2_AX'', ''T2_SAG''), [], []))
     = Some ''Anonymised/26110309050012M F 034/T2_SAG_1/EXP10000.dcm''"
proof -
  define files where "files = map (fmt_0d 5) [0 ..< 10001]"
  have l: "length files = 10001" unfolding files_def by (simp only: length_map length_upt diff_zero)
  then have ne: "files \<noteq> []" by auto
  have dg: "\<forall>f \<in> set files. \<forall>c \<in> set f. is_digit c"
    unfolding files_def set_map using fmt_0d_digits by blast
  from uniform_world_run[OF ne dg] obtain w' outs where
    r: "process_folder sample_clock uniform_world
            (sample_root, files, ''/Dataset'', (''T2_AX'', ''T2_SAG''), [], []) = Some (([], []), w')"
    and w: "written w' = outs" and len: "length outs = length files"
    and nth: "\<forall>i < length files. outs ! i =
                os_path_join ''Anonymised/26110309050012M F 034/T2_SAG_1/'' (''EXP'' @ fmt_0d 4 i @ ''.dcm'')"
    by blast
  have f5: "fmt_0d 4 10000 = ''10000''"
    by (simp add: fmt_0d_def str_nat.simps[of "numeral k" for k] str_nat.simps[of "Suc 0"])
  have nm: "os_path_join ''Anonymised/26110309050012M F 034/T2_SAG_1/'' (''EXP'' @ fmt_0d 4 10000 @ ''.dcm'')
              = ''Anonymised/26110309050012M F 034/T2_SAG_1/EXP10000.dcm''"
    unfolding f5 by code_simp
  from len l have "outs \<noteq> []" by auto
  then have "last outs = outs ! (length outs - 1)" by (rule last_conv_nth)
  also have "\<dots> = outs ! 10000" using len l by simp
  also have "\<dots> = os_path_join ''Anonymised/26110309050012M F 034/T2_SAG_1/''
                        (''EXP'' @ fmt_0d 4 10000 @ ''.dcm'')"
    using nth l by simp
  also note nm
  finally have la: "last outs = ''Anonymised/26110309050012M F 034/T2_SAG_1/EXP10000.dcm''" .
  have "map_option (fst \<circ> fst) (process_folder sample_clock uniform_world
      (sample_root, files, ''/Dataset'', (''T2_AX'', ''T2_SAG''), [], []))
     = Some []
   \<and> map_option (length \<circ> written \<circ> snd) (process_folder sample_clock uniform_world
      (sample_root, files, ''/Dataset'', (''T2_AX'', ''T2_SAG''), [], []))
     = Some 10001
   \<and> map_option (last \<circ> written \<circ> snd) (process_folder sample_clock uniform_world
      (sample_root, files, ''/Dataset'', (''T2_AX'', ''T2_SAG''), [], []))
     = Some ''Anonymised/26110309050012M F 034/T2_SAG_1/EXP10000.dcm''"
    unfolding r using w len l la by simp
  then show ?thesis unfolding files_def .
qed

end
